(* ===== verification/Prelude.thy ===== *)
theory Prelude
  imports Main "HOL-Library.AList"
begin

text \<open>
  Shared vocabulary of the development: the results of Go functions (a value or a panic), the
  reachable states of a step relation, and the interface locales that several components
  instantiate (an invariant kept by a step relation, an encoder with its decoder).
\<close>

named_theorems go_simps \<open>evaluation rules of the Go primitives used by the components\<close>
named_theorems comp_defs \<open>unfolding rules for the small operations of a component\<close>

subsection \<open>Results of Go functions\<close>

text \<open>
  A Go function either returns or panics. An ordinary error is part of the returned value, as in
  the source; \<open>err\<close> is the dynamic value of Go's \<open>error\<close> interface, \<open>None\<close> being \<open>nil\<close>.
\<close>

datatype 'a outcome = Return 'a | Panic string

type_synonym err = "string option"

fun bind_outcome :: "'a outcome \<Rightarrow> ('a \<Rightarrow> 'b outcome) \<Rightarrow> 'b outcome" where
  "bind_outcome (Return x) f = f x"
| "bind_outcome (Panic p) f = Panic p"

fun map_outcome :: "('a \<Rightarrow> 'b) \<Rightarrow> 'a outcome \<Rightarrow> 'b outcome" where
  "map_outcome f (Return x) = Return (f x)"
| "map_outcome f (Panic p) = Panic p"

text \<open>Slice indexing: out of range is Go's run-time panic.\<close>

definition index_at :: "'a list \<Rightarrow> nat \<Rightarrow> 'a outcome" where
  "index_at xs i = (if i < length xs then Return (xs ! i) else Panic ''index out of range'')"

text \<open>\<open>s[n:]\<close> panics when \<open>n\<close> is beyond the length.\<close>

definition slice_from :: "'a list \<Rightarrow> nat \<Rightarrow> 'a list outcome" where
  "slice_from xs n = (if n \<le> length xs then Return (drop n xs) else Panic ''slice bounds out of range'')"

lemma bind_outcome_Return_iff:
  "bind_outcome x f = Return y \<longleftrightarrow> (\<exists>z. x = Return z \<and> f z = Return y)"
  by (cases x) auto

lemma map_outcome_Return_iff: "map_outcome f x = Return y \<longleftrightarrow> (\<exists>z. x = Return z \<and> y = f z)"
  by (cases x) auto

lemma bind_outcome_Panic_iff:
  "bind_outcome x f = Panic p \<longleftrightarrow> x = Panic p \<or> (\<exists>z. x = Return z \<and> f z = Panic p)"
  by (cases x) auto

lemma index_at_Return [simp]: "i < length xs \<Longrightarrow> index_at xs i = Return (xs ! i)"
  by (simp add: index_at_def)

lemma index_at_Panic [simp]: "length xs \<le> i \<Longrightarrow> index_at xs i = Panic ''index out of range''"
  by (simp add: index_at_def)

lemma slice_from_append [simp]: "slice_from (xs @ ys) (length xs) = Return ys"
  by (simp add: slice_from_def)

subsection \<open>Go maps as association lists\<close>

text \<open>
  Go's \<open>range\<close> visits a map's entries in an unspecified order. A map that the code ranges over is
  an association list with distinct keys; the list order stands for the order the run time picks,
  and the theorems hold for every order. \<open>map_of\<close> abstracts it to a partial function.
\<close>

lemma map_of_update_conv: "map_of (AList.update k v xs) = (map_of xs)(k \<mapsto> v)"
  by (simp add: AList.update_conv')

lemma map_of_delete_conv: "map_of (AList.delete k xs) = (map_of xs)(k := None)"
  by (simp add: AList.delete_conv')

lemma map_of_filter_key:
  "map_of (filter (\<lambda>(k, v). P k) xs) k = (if P k then map_of xs k else None)"
  by (induction xs) auto

lemma delete_eq_Nil_iff: "AList.delete k xs = [] \<longleftrightarrow> fst ` set xs \<subseteq> {k}"
  by (induction xs) (auto simp: AList.delete_eq)

subsection \<open>Reachable states and invariants\<close>

inductive reach :: "('s \<Rightarrow> bool) \<Rightarrow> ('s \<Rightarrow> 's \<Rightarrow> bool) \<Rightarrow> 's \<Rightarrow> bool"
  for Init :: "'s \<Rightarrow> bool" and Step :: "'s \<Rightarrow> 's \<Rightarrow> bool" where
  reach_init: "Init s \<Longrightarrow> reach Init Step s"
| reach_step: "reach Init Step s \<Longrightarrow> Step s t \<Longrightarrow> reach Init Step t"

lemma reach_mono:
  assumes "reach Init Step s" and "\<And>s t. Step s t \<Longrightarrow> Step' s t"
  shows "reach Init Step' s"
  using assms(1) by (induction rule: reach.induct) (auto intro: reach.intros assms(2))

text \<open>
  What every state machine of the development promises to its users: the invariant holds at the
  start and no step breaks it.
\<close>

locale safe_system =
  fixes Init :: "'s \<Rightarrow> bool" and Step :: "'s \<Rightarrow> 's \<Rightarrow> bool" and Inv :: "'s \<Rightarrow> bool"
  assumes init_inv: "Init s \<Longrightarrow> Inv s"
    and step_inv: "Inv s \<Longrightarrow> Step s t \<Longrightarrow> Inv t"
begin

lemma reach_inv: "reach Init Step s \<Longrightarrow> Inv s"
  by (induction rule: reach.induct) (auto intro: init_inv step_inv)

lemma steps_inv: "Inv s \<Longrightarrow> Step\<^sup>*\<^sup>* s t \<Longrightarrow> Inv t"
  by (rotate_tac 1, induction rule: rtranclp_induct) (auto intro: step_inv)

end

subsection \<open>Terminating systems\<close>

text \<open>
  A safe system that always comes to its end: every step lowers a measure, and a state that is not
  final has a step. Its users get that some run ends from every reachable state and that no run is
  longer than the measure.
\<close>

locale terminating_system = safe_system +
  fixes mu :: "'a \<Rightarrow> nat" and Final :: "'a \<Rightarrow> bool"
  assumes step_less: "Inv s \<Longrightarrow> Step s t \<Longrightarrow> mu t < mu s"
    and progress: "Inv s \<Longrightarrow> \<not> Final s \<Longrightarrow> \<exists>t. Step s t"
begin

lemma ends_final: "Inv s \<Longrightarrow> \<exists>t. Step\<^sup>*\<^sup>* s t \<and> Final t"
proof (induction "mu s" arbitrary: s rule: less_induct)
  case less
  show ?case
  proof (cases "Final s")
    case False
    then obtain t where t: "Step s t" using progress less.prems by blast
    then obtain u where "Step\<^sup>*\<^sup>* t u" "Final u"
      using less.hyps [OF step_less [OF less.prems t] step_inv [OF less.prems t]] by blast
    with t show ?thesis by (meson converse_rtranclp_into_rtranclp)
  qed blast
qed

lemma run_bounded: "Inv s \<Longrightarrow> (Step ^^ n) s t \<Longrightarrow> n + mu t \<le> mu s"
proof (induction n arbitrary: t)
  case (Suc n)
  then obtain u where u: "(Step ^^ n) s u" "Step u t" by auto
  then have "Inv u" using steps_inv [OF Suc.prems(1) relpowp_imp_rtranclp] by blast
  then show ?case using Suc.IH [OF Suc.prems(1) u(1)] step_less u(2) by fastforce
qed simp

end

subsection \<open>Encoders and decoders\<close>

text \<open>
  A codec: whatever is encoded from a well-formed value decodes to it. An exact codec moreover
  accepts nothing but encodings, so decoding and encoding are inverse bijections.
\<close>

locale codec =
  fixes enc :: "'a \<Rightarrow> 'b" and dec :: "'b \<Rightarrow> 'a option" and wf :: "'a \<Rightarrow> bool"
  assumes dec_enc: "wf x \<Longrightarrow> dec (enc x) = Some x"
begin

lemma enc_eq_iff: "wf x \<Longrightarrow> wf y \<Longrightarrow> enc x = enc y \<longleftrightarrow> x = y"
  by (metis dec_enc option.inject)

lemma inj_on_enc: "inj_on enc {x. wf x}"
  by (auto simp: inj_on_def enc_eq_iff)

lemma dec_enc_all: "list_all wf xs \<Longrightarrow> map (dec \<circ> enc) xs = map Some xs"
  by (induction xs) (auto simp: dec_enc)

end

locale exact_codec = codec +
  assumes dec_wf: "dec b = Some x \<Longrightarrow> wf x"
    and enc_dec: "dec b = Some x \<Longrightarrow> enc x = b"
begin

lemma dec_Some_iff: "dec b = Some x \<longleftrightarrow> wf x \<and> enc x = b"
  using dec_enc dec_wf enc_dec by blast

lemma bij_betw_enc: "bij_betw enc {x. wf x} {b. dec b \<noteq> None}"
  by (rule bij_betw_byWitness [where f' = "\<lambda>b. the (dec b)"])
    (auto simp: dec_enc enc_dec dec_wf)

end

end
