(* ===== verification/GoStd.thy ===== *)
theory GoStd
  imports Prelude "HOL-Library.Word" "HOL-Library.Sublist"
begin

text \<open>
  The part of Go's standard library that go-alibp2p computes with: \<open>strings.Contains\<close>,
  \<open>strings.Split\<close>, the decimal rendering of integers, \<open>big.Int\<close>'s byte conversions,
  \<open>encoding/binary\<close> in big-endian order, \<open>encoding/hex\<close> and the wrap-around of \<open>int32\<close>. A Go string
  is a byte sequence, here HOL's \<open>string\<close> (a list of 8-bit characters).
\<close>

unbundle bit_operations_syntax

type_synonym byte = "8 word"

subsection \<open>strings.Contains and strings.Split\<close>

definition hasPrefix :: "string \<Rightarrow> string \<Rightarrow> bool" where
  "hasPrefix p s = (take (length p) s = p)"

fun strings_Contains :: "string \<Rightarrow> string \<Rightarrow> bool" where
  "strings_Contains [] sub = (sub = [])"
| "strings_Contains (c # cs) sub = (hasPrefix sub (c # cs) \<or> strings_Contains cs sub)"

text \<open>
  \<open>split_acc sep acc s\<close> scans \<open>s\<close>, \<open>acc\<close> being the reversed part read since the last separator.
  Go splits an empty separator into characters; the code has no such call.
\<close>

function split_acc :: "string \<Rightarrow> string \<Rightarrow> string \<Rightarrow> string list" where
  "split_acc sep acc [] = [rev acc]"
| "split_acc sep acc (c # cs) =
     (if hasPrefix sep (c # cs) then rev acc # split_acc sep [] (drop (length sep - 1) cs)
      else split_acc sep (c # acc) cs)"
  by pat_completeness auto
termination
  by (relation "measure (\<lambda>(sep, acc, s). length s)") auto

definition strings_Split :: "string \<Rightarrow> string \<Rightarrow> string list" where
  "strings_Split s sep = split_acc sep [] s"

lemma hasPrefix_append [simp]: "hasPrefix p (p @ s)"
  by (simp add: hasPrefix_def)

lemma hasPrefix_iff: "hasPrefix p s \<longleftrightarrow> (\<exists>t. s = p @ t)"
  unfolding hasPrefix_def by (metis append_eq_conv_conj append_take_drop_id)

lemma ex_append_Cons:
  "(\<exists>a b. c # cs = a @ sub @ b) \<longleftrightarrow> (\<exists>t. c # cs = sub @ t) \<or> (\<exists>a b. cs = a @ sub @ b)"
  (is "?L \<longleftrightarrow> ?R1 \<or> ?R2")
proof
  assume ?L
  then obtain a b where "c # cs = a @ sub @ b" by blast
  then show "?R1 \<or> ?R2" by (cases a) auto
next
  assume "?R1 \<or> ?R2"
  then show ?L
  proof
    assume ?R1
    then show ?L by (metis append_Nil)
  next
    assume ?R2
    then show ?L by (metis append_Cons)
  qed
qed

lemma Contains_iff: "strings_Contains s sub \<longleftrightarrow> (\<exists>a b. s = a @ sub @ b)"
proof (induction s)
  case Nil
  then show ?case by simp
next
  case (Cons c cs)
  then show ?case by (simp only: strings_Contains.simps hasPrefix_iff ex_append_Cons)
qed

lemma Contains_append1: "strings_Contains a sub \<Longrightarrow> strings_Contains (a @ b) sub"
  unfolding Contains_iff by (metis append.assoc)

lemma Contains_append2: "strings_Contains b sub \<Longrightarrow> strings_Contains (a @ b) sub"
  unfolding Contains_iff by (metis append.assoc)

lemma Contains_mid: "strings_Contains (a @ sub @ b) sub"
  unfolding Contains_iff by blast

lemma Contains_set: "strings_Contains s sub \<Longrightarrow> set sub \<subseteq> set s"
  unfolding Contains_iff by auto

lemma not_Contains_char: "c \<in> set sub \<Longrightarrow> c \<notin> set s \<Longrightarrow> \<not> strings_Contains s sub"
  using Contains_set by blast

lemma Contains_skip: "c \<notin> set a \<Longrightarrow> strings_Contains (a @ b) (c # cs) = strings_Contains b (c # cs)"
  by (induction a) (auto simp: hasPrefix_def)

lemma split_acc_none: "\<not> strings_Contains s sep \<Longrightarrow> split_acc sep acc s = [rev acc @ s]"
  by (induction sep acc s rule: split_acc.induct) auto

lemma split_acc_first:
  assumes "sep \<noteq> []" and "\<not> strings_Contains (a @ butlast sep) sep"
  shows "split_acc sep acc (a @ sep @ b) = (rev acc @ a) # split_acc sep [] b"
  using assms(2)
proof (induction a arbitrary: acc)
  case Nil
  obtain c cs where sep: "sep = c # cs" using assms(1) by (cases sep) auto
  have "hasPrefix sep (c # cs @ b)" unfolding sep by (metis append_Cons hasPrefix_append)
  then show ?case using sep by simp
next
  case (Cons x a)
  define u where "u = x # a @ butlast sep"
  have "sep = butlast sep @ [last sep]" using assms(1) by simp
  then have "sep @ b = butlast sep @ last sep # b" by (metis append.assoc append_Cons append_Nil)
  then have eq: "x # a @ sep @ b = u @ last sep # b" by (simp add: u_def)
  have "length sep \<le> length u" using assms(1) by (simp add: u_def)
  moreover have "\<not> hasPrefix sep u" using Cons.prems by (simp add: u_def)
  ultimately have np: "\<not> hasPrefix sep (x # a @ sep @ b)"
    unfolding eq by (simp add: hasPrefix_def)
  have "\<not> strings_Contains (a @ butlast sep) sep" using Cons.prems by simp
  with np Cons.IH [of "x # acc"] show ?case by simp
qed

lemma Split_none [simp]: "\<not> strings_Contains s sep \<Longrightarrow> strings_Split s sep = [s]"
  by (simp add: strings_Split_def split_acc_none)

lemma Split_first:
  "sep \<noteq> [] \<Longrightarrow> \<not> strings_Contains (a @ butlast sep) sep \<Longrightarrow>
   strings_Split (a @ sep @ b) sep = a # strings_Split b sep"
  using split_acc_first [of sep a "[]" b] by (simp add: strings_Split_def)

lemma Split_char_first: "c \<notin> set a \<Longrightarrow> strings_Split (a @ c # b) [c] = a # strings_Split b [c]"
  using Split_first [of "[c]" a b] by (simp add: not_Contains_char)

lemma Split_char_none: "c \<notin> set a \<Longrightarrow> strings_Split a [c] = [a]"
  by (simp add: not_Contains_char)

lemma Split_not_Nil: "strings_Split s sep \<noteq> []"
proof -
  have "split_acc sep acc s \<noteq> []" for acc
    by (induction sep acc s rule: split_acc.induct) auto
  then show ?thesis by (simp add: strings_Split_def)
qed

text \<open>Two occurrences of the separator are enough to make index 1 valid.\<close>

lemma Split_Contains_length:
  assumes "sep \<noteq> []" and "strings_Contains s sep"
  shows "2 \<le> length (strings_Split s sep)"
proof -
  have "sep \<noteq> [] \<Longrightarrow> strings_Contains s sep \<Longrightarrow> 2 \<le> length (split_acc sep acc s)" for acc
  proof (induction sep acc s rule: split_acc.induct)
    case (1 sep acc)
    then show ?case by auto
  next
    case (2 sep acc c cs)
    have "split_acc sep [] t \<noteq> []" for t
      using Split_not_Nil by (simp add: strings_Split_def)
    with 2 show ?case by (auto simp: Suc_le_eq)
  qed
  with assms show ?thesis by (simp add: strings_Split_def)
qed

end
