(* ===== verification/GoBytes.thy ===== *)
theory GoBytes
  imports GoStd
begin

text \<open>
  Bytes and integers of Go's standard library: \<open>[]byte(s)\<close>, decimal rendering (\<open>%d\<close>),
  \<open>big.Int.Bytes\<close> and \<open>SetBytes\<close>, \<open>encoding/binary\<close> in big-endian order, \<open>encoding/hex\<close>, and the
  wrap-around of \<open>int32\<close> arithmetic.
\<close>

subsection \<open>Strings as bytes\<close>

definition byte_of :: "char \<Rightarrow> byte" where
  "byte_of c = of_nat (of_char c)"

definition char_of_byte :: "byte \<Rightarrow> char" where
  "char_of_byte b = char_of (unat b)"

definition bytes_of :: "string \<Rightarrow> byte list" where
  "bytes_of s = map byte_of s"

definition string_of :: "byte list \<Rightarrow> string" where
  "string_of bs = map char_of_byte bs"

lemma char_of_byte_of [simp]: "char_of_byte (byte_of c) = c"
  by (simp add: char_of_byte_def byte_of_def unat_of_nat of_char_mod_256)

lemma string_of_bytes_of [simp]: "string_of (bytes_of s) = s"
  by (simp add: string_of_def bytes_of_def comp_def)

lemma bytes_of_eq_iff [simp]: "bytes_of s = bytes_of t \<longleftrightarrow> s = t"
  by (metis string_of_bytes_of)

lemma length_bytes_of [simp]: "length (bytes_of s) = length s"
  by (simp add: bytes_of_def)

subsection \<open>Decimal rendering\<close>

definition digit_char :: "nat \<Rightarrow> char" where
  "digit_char d = char_of (48 + d)"

fun dec_nat :: "nat \<Rightarrow> string" where
  "dec_nat n = (if n < 10 then [digit_char n] else dec_nat (n div 10) @ [digit_char (n mod 10)])"

declare dec_nat.simps [simp del]

definition dec_int :: "int \<Rightarrow> string" where
  "dec_int i = (if i < 0 then CHR ''-'' # dec_nat (nat (- i)) else dec_nat (nat i))"

text \<open>Reading the digits back: \<open>strconv\<close>'s value of a digit string.\<close>

definition undec :: "string \<Rightarrow> nat" where
  "undec s = foldl (\<lambda>a c. a * 10 + (of_char c - 48)) 0 s"

lemma of_char_digit [simp]: "d < 10 \<Longrightarrow> (of_char (digit_char d) :: nat) = 48 + d"
  by (simp add: digit_char_def of_char_of take_bit_eq_mod)

lemma undec_dec_nat [simp]: "undec (dec_nat n) = n"
proof (induction n rule: dec_nat.induct)
  case (1 n)
  show ?case
  proof (cases "n < 10")
    case True
    then show ?thesis by (subst dec_nat.simps) (simp add: undec_def)
  next
    case False
    then have "undec (dec_nat (n div 10)) = n div 10" using 1 by simp
    with False show ?thesis by (subst dec_nat.simps) (simp add: undec_def)
  qed
qed

lemma dec_nat_eq_iff: "dec_nat m = dec_nat n \<longleftrightarrow> m = n"
  by (metis undec_dec_nat)

lemma dec_nat_digits: "set (dec_nat n) \<subseteq> digit_char ` {..<10}"
proof (induction n rule: dec_nat.induct)
  case (1 n)
  then show ?case by (subst dec_nat.simps) auto
qed

subsection \<open>big.Int as bytes\<close>

fun nat_to_bytes :: "nat \<Rightarrow> byte list" where
  "nat_to_bytes n = (if n = 0 then [] else nat_to_bytes (n div 256) @ [of_nat (n mod 256)])"

declare nat_to_bytes.simps [simp del]

definition bytes_to_nat :: "byte list \<Rightarrow> nat" where
  "bytes_to_nat bs = foldl (\<lambda>a b. a * 256 + unat b) 0 bs"

lemma unat_byte_of_nat [simp]: "n < 256 \<Longrightarrow> unat (of_nat n :: byte) = n"
  by (simp add: unat_of_nat)

lemma bytes_to_nat_snoc: "bytes_to_nat (bs @ [b]) = bytes_to_nat bs * 256 + unat b"
  by (simp add: bytes_to_nat_def)

lemma bytes_to_nat_inverse [simp]: "bytes_to_nat (nat_to_bytes n) = n"
proof (induction n rule: nat_to_bytes.induct)
  case (1 n)
  then show ?case
    by (subst nat_to_bytes.simps) (auto simp: bytes_to_nat_snoc bytes_to_nat_def)
qed

lemma nat_to_bytes_eq_iff: "nat_to_bytes m = nat_to_bytes n \<longleftrightarrow> m = n"
  by (metis bytes_to_nat_inverse)

lemma nat_to_bytes_0 [simp]: "nat_to_bytes 0 = []"
  by (simp add: nat_to_bytes.simps)

text \<open>\<open>Bytes\<close> is the shortest encoding: it never starts with a zero byte.\<close>

lemma hd_nat_to_bytes: "0 < n \<Longrightarrow> nat_to_bytes n \<noteq> [] \<and> hd (nat_to_bytes n) \<noteq> 0"
proof (induction n rule: nat_to_bytes.induct)
  case (1 n)
  show ?case
  proof (cases "n < 256")
    case True
    then have "unat (of_nat n :: byte) \<noteq> 0" using 1(2) by simp
    then have "(of_nat n :: byte) \<noteq> 0" by (metis unat_0)
    with True 1(2) show ?thesis by (subst (1 2) nat_to_bytes.simps) simp
  next
    case False
    then have "0 < n div 256" by (simp add: div_greater_zero_iff)
    with 1 have "nat_to_bytes (n div 256) \<noteq> [] \<and> hd (nat_to_bytes (n div 256)) \<noteq> 0" by simp
    with 1(2) show ?thesis by (subst (1 2) nat_to_bytes.simps) (simp add: hd_append)
  qed
qed

subsection \<open>encoding/binary, big-endian\<close>

definition be16 :: "16 word \<Rightarrow> byte list" where
  "be16 w = [ucast (drop_bit 8 w), ucast w]"

definition be32 :: "32 word \<Rightarrow> byte list" where
  "be32 w = [ucast (drop_bit 24 w), ucast (drop_bit 16 w), ucast (drop_bit 8 w), ucast w]"

fun un_be16 :: "byte list \<Rightarrow> 16 word option" where
  "un_be16 [a, b] = Some (push_bit 8 (ucast a) OR ucast b)"
| "un_be16 _ = None"

fun un_be32 :: "byte list \<Rightarrow> 32 word option" where
  "un_be32 [a, b, c, d] =
     Some (push_bit 24 (ucast a) OR push_bit 16 (ucast b) OR push_bit 8 (ucast c) OR ucast d)"
| "un_be32 _ = None"

lemma bit_byte_beyond: "8 \<le> n \<Longrightarrow> \<not> bit (b :: byte) n"
  by (auto dest: bit_imp_le_length)

lemma un_be16_be16: "un_be16 (be16 w) = Some w"
  by (auto simp: be16_def bit_simps intro!: bit_word_eqI)

lemma un_be32_be32: "un_be32 (be32 w) = Some w"
proof -
  have "bit (push_bit 24 (ucast (ucast (drop_bit 24 w) :: byte)) OR
      push_bit 16 (ucast (ucast (drop_bit 16 w) :: byte)) OR
      push_bit 8 (ucast (ucast (drop_bit 8 w) :: byte)) OR ucast (ucast w :: byte) :: 32 word) n
    = bit w n" if "n < 32" for n
  proof -
    consider "n < 8" | "8 \<le> n" "n < 16" | "16 \<le> n" "n < 24" | "24 \<le> n" by linarith
    then show ?thesis using that by cases (auto simp: bit_simps dest: bit_imp_le_length)
  qed
  then show ?thesis by (auto simp: be32_def intro!: bit_word_eqI)
qed

lemma be16_un_be16: "un_be16 bs = Some w \<Longrightarrow> be16 w = bs"
  by (induction bs rule: un_be16.induct)
    (auto simp: be16_def bit_simps bit_byte_beyond intro!: bit_word_eqI)

lemma be32_un_be32: "un_be32 bs = Some w \<Longrightarrow> be32 w = bs"
  by (induction bs rule: un_be32.induct)
    (auto simp: be32_def bit_simps bit_byte_beyond intro!: bit_word_eqI)

interpretation be16: exact_codec be16 un_be16 "\<lambda>_. True"
  by unfold_locales (simp_all add: un_be16_be16 be16_un_be16)

interpretation be32: exact_codec be32 un_be32 "\<lambda>_. True"
  by unfold_locales (simp_all add: un_be32_be32 be32_un_be32)

lemma length_be16 [simp]: "length (be16 w) = 2"
  by (simp add: be16_def)

lemma length_be32 [simp]: "length (be32 w) = 4"
  by (simp add: be32_def)

lemma un_be16_total: "length bs = 2 \<Longrightarrow> \<exists>w. un_be16 bs = Some w"
  by (auto simp: numeral_2_eq_2 length_Suc_conv)

lemma un_be32_total: "length bs = 4 \<Longrightarrow> \<exists>w. un_be32 bs = Some w"
  by (auto simp: numeral_eq_Suc length_Suc_conv)

subsection \<open>encoding/hex\<close>

definition hex_char :: "nat \<Rightarrow> char" where
  "hex_char n = (if n < 10 then char_of (48 + n) else char_of (87 + n))"

definition hex_byte :: "byte \<Rightarrow> string" where
  "hex_byte b = [hex_char (unat b div 16), hex_char (unat b mod 16)]"

definition hex_EncodeToString :: "byte list \<Rightarrow> string" where
  "hex_EncodeToString bs = concat (map hex_byte bs)"

definition hex_val :: "char \<Rightarrow> nat option" where
  "hex_val c = (let n = of_char c in
     if 48 \<le> n \<and> n < 58 then Some (n - 48)
     else if 97 \<le> n \<and> n < 103 then Some (n - 87)
     else if 65 \<le> n \<and> n < 71 then Some (n - 55) else None)"

fun hex_DecodeString :: "string \<Rightarrow> byte list option" where
  "hex_DecodeString [] = Some []"
| "hex_DecodeString [c] = None"
| "hex_DecodeString (c # d # cs) =
     (case (hex_val c, hex_val d, hex_DecodeString cs) of
        (Some h, Some l, Some bs) \<Rightarrow> Some (of_nat (16 * h + l) # bs)
      | _ \<Rightarrow> None)"

lemma hex_val_char: "n < 16 \<Longrightarrow> hex_val (hex_char n) = Some n"
  by (auto simp: hex_val_def hex_char_def Let_def of_char_of take_bit_eq_mod)

lemma hex_byte_digits:
  "\<exists>h l. hex_byte b = [hex_char h, hex_char l] \<and> h < 16 \<and> l < 16 \<and> of_nat (16 * h + l) = b"
proof (intro exI conjI)
  have "unat b < 256" using unsigned_less [of b] by simp
  then show "unat b div 16 < 16" by simp
  show "of_nat (16 * (unat b div 16) + unat b mod 16) = b" by (simp del: of_nat_add of_nat_mult)
qed (simp_all add: hex_byte_def)

lemma hex_Encode_simps [simp]:
  "hex_EncodeToString [] = []" "hex_EncodeToString (b # bs) = hex_byte b @ hex_EncodeToString bs"
  by (simp_all add: hex_EncodeToString_def)

lemma hex_decode_encode: "hex_DecodeString (hex_EncodeToString bs) = Some bs"
proof (induction bs)
  case (Cons b bs)
  then show ?case using hex_byte_digits [of b] by (auto simp: hex_val_char simp del: of_nat_add of_nat_mult)
qed simp

interpretation hex: codec hex_EncodeToString hex_DecodeString "\<lambda>_. True"
  by unfold_locales (simp add: hex_decode_encode)

lemma length_hex: "length (hex_EncodeToString bs) = 2 * length bs"
  by (induction bs) (auto simp: hex_EncodeToString_def hex_byte_def)

subsection \<open>int32 arithmetic\<close>

definition i32 :: "int \<Rightarrow> int" where
  "i32 x = signed_take_bit 31 x"

lemma i32_id [simp]: "- (2 ^ 31) \<le> x \<Longrightarrow> x < 2 ^ 31 \<Longrightarrow> i32 x = x"
  unfolding i32_def by (rule signed_take_bit_int_eq_self)

end
