(* ===== verification/Digest.thy ===== *)
theory Digest
  imports GoBytes
begin

text \<open>
  \<open>crypto/sha1\<close> and \<open>crypto/sha256\<close>, executable, as FIPS 180-4 defines them. \<open>KeyMutex.hash\<close> names
  a lock by the hexadecimal SHA-1 of its namespace and key, \<open>Config.ProtectorOpt\<close> derives the
  network's pre-shared key by SHA-256. What the proofs use of them is only the length of the
  digest; the definitions are concrete so that the lock names can be computed.
\<close>

subsection \<open>Padding and blocks\<close>

fun be_bytes :: "nat \<Rightarrow> nat \<Rightarrow> byte list" where
  "be_bytes 0 n = []"
| "be_bytes (Suc k) n = be_bytes k (n div 256) @ [of_nat (n mod 256)]"

definition sha_pad :: "byte list \<Rightarrow> byte list" where
  "sha_pad m = m @ [0x80] @ replicate ((119 - length m mod 64) mod 64) 0 @ be_bytes 8 (8 * length m)"

fun words32 :: "byte list \<Rightarrow> 32 word list" where
  "words32 (a # b # c # d # bs) =
     (push_bit 24 (ucast a) OR push_bit 16 (ucast b) OR push_bit 8 (ucast c) OR ucast d) # words32 bs"
| "words32 _ = []"

text \<open>Blocks of sixteen words; the padded message is a whole number of them.\<close>

function sha_blocks :: "'a list \<Rightarrow> 'a list list" where
  "sha_blocks xs = (if length xs < 16 then [] else take 16 xs # sha_blocks (drop 16 xs))"
  by pat_completeness auto
termination
  by (relation "measure length") auto

declare sha_blocks.simps [simp del]

subsection \<open>SHA-1\<close>

type_synonym sha1_state = "32 word \<times> 32 word \<times> 32 word \<times> 32 word \<times> 32 word"

text \<open>The schedule is kept in reverse: the newest word first.\<close>

fun sha1_expand :: "nat \<Rightarrow> 32 word list \<Rightarrow> 32 word list" where
  "sha1_expand 0 ws = ws"
| "sha1_expand (Suc n) ws =
     sha1_expand n (word_rotl 1 (ws ! 2 XOR ws ! 7 XOR ws ! 13 XOR ws ! 15) # ws)"

definition sha1_f :: "nat \<Rightarrow> 32 word \<Rightarrow> 32 word \<Rightarrow> 32 word \<Rightarrow> 32 word" where
  "sha1_f t b c d =
     (if t < 20 then (b AND c) OR (NOT b AND d)
      else if t < 40 then b XOR c XOR d
      else if t < 60 then (b AND c) OR (b AND d) OR (c AND d)
      else b XOR c XOR d)"

definition sha1_k :: "nat \<Rightarrow> 32 word" where
  "sha1_k t = (if t < 20 then 0x5A827999 else if t < 40 then 0x6ED9EBA1
     else if t < 60 then 0x8F1BBCDC else 0xCA62C1D6)"

fun sha1_rounds :: "nat \<Rightarrow> 32 word list \<Rightarrow> sha1_state \<Rightarrow> sha1_state" where
  "sha1_rounds t [] s = s"
| "sha1_rounds t (w # ws) (a, b, c, d, e) =
     sha1_rounds (Suc t) ws
       (word_rotl 5 a + sha1_f t b c d + e + sha1_k t + w, a, word_rotl 30 b, c, d)"

fun sha1_add :: "sha1_state \<Rightarrow> sha1_state \<Rightarrow> sha1_state" where
  "sha1_add (a, b, c, d, e) (a', b', c', d', e') = (a + a', b + b', c + c', d + d', e + e')"

definition sha1_block :: "sha1_state \<Rightarrow> 32 word list \<Rightarrow> sha1_state" where
  "sha1_block s blk = sha1_add s (sha1_rounds 0 (rev (sha1_expand 64 (rev blk))) s)"

definition sha1_init :: sha1_state where
  "sha1_init = (0x67452301, 0xEFCDAB89, 0x98BADCFE, 0x10325476, 0xC3D2E1F0)"

fun sha1_out :: "sha1_state \<Rightarrow> byte list" where
  "sha1_out (a, b, c, d, e) = concat (map be32 [a, b, c, d, e])"

definition sha1_Sum :: "byte list \<Rightarrow> byte list" where
  "sha1_Sum m = sha1_out (foldl sha1_block sha1_init (sha_blocks (words32 (sha_pad m))))"

lemma length_sha1_Sum [simp]: "length (sha1_Sum m) = 20"
proof -
  have "length (sha1_out s) = 20" for s by (cases s) simp
  then show ?thesis by (simp add: sha1_Sum_def)
qed

subsection \<open>SHA-256\<close>

text \<open>
  The round constants are the first 32 bits of the fractional parts of the cube roots of the first 64
  primes, the initial state those of the square roots of the first eight. \<open>int_root e b n r\<close> is the
  integer part of the \<open>e\<close>-th root of \<open>n\<close>, found bit by bit from bit \<open>b\<close> down.
\<close>

fun int_root :: "nat \<Rightarrow> nat \<Rightarrow> nat \<Rightarrow> nat \<Rightarrow> nat" where
  "int_root e 0 n r = r"
| "int_root e (Suc b) n r = int_root e b n (if (r + 2 ^ b) ^ e \<le> n then r + 2 ^ b else r)"

definition frac_root :: "nat \<Rightarrow> nat \<Rightarrow> 32 word" where
  "frac_root e p = of_nat (int_root e 36 (p * 2 ^ (32 * e)) 0)"

definition small_primes :: "nat list" where
  "small_primes = filter (\<lambda>n. list_all (\<lambda>d. n mod d \<noteq> 0) [2..<n]) [2..<312]"

definition sha256_k :: "32 word list" where
  "sha256_k = map (frac_root 3) small_primes"

definition sha256_init :: "32 word list" where
  "sha256_init = map (frac_root 2) [2, 3, 5, 7, 11, 13, 17, 19]"

fun sha256_expand :: "nat \<Rightarrow> 32 word list \<Rightarrow> 32 word list" where
  "sha256_expand 0 ws = ws"
| "sha256_expand (Suc n) ws =
     (let x = ws ! 14; y = ws ! 1;
          s0 = word_rotr 7 x XOR word_rotr 18 x XOR drop_bit 3 x;
          s1 = word_rotr 17 y XOR word_rotr 19 y XOR drop_bit 10 y
      in sha256_expand n ((ws ! 15 + s0 + ws ! 6 + s1) # ws))"

text \<open>One round; the state is a list of the eight words \<open>a\<close> to \<open>h\<close>.\<close>

definition sha256_round :: "32 word list \<Rightarrow> 32 word \<times> 32 word \<Rightarrow> 32 word list" where
  "sha256_round s kw =
     (let (k, w) = kw;
          a = s ! 0; b = s ! 1; c = s ! 2; d = s ! 3; e = s ! 4; f = s ! 5; g = s ! 6; h = s ! 7;
          s1 = word_rotr 6 e XOR word_rotr 11 e XOR word_rotr 25 e;
          ch = (e AND f) XOR (NOT e AND g);
          t1 = h + s1 + ch + k + w;
          s0 = word_rotr 2 a XOR word_rotr 13 a XOR word_rotr 22 a;
          maj = (a AND b) XOR (a AND c) XOR (b AND c)
      in [t1 + s0 + maj, a, b, c, d + t1, e, f, g])"

definition sha256_rounds :: "(32 word \<times> 32 word) list \<Rightarrow> 32 word list \<Rightarrow> 32 word list" where
  "sha256_rounds kws s = foldl sha256_round s kws"

definition sha256_block :: "32 word list \<Rightarrow> 32 word list \<Rightarrow> 32 word list" where
  "sha256_block s blk =
     map2 (+) s (sha256_rounds (zip sha256_k (rev (sha256_expand 48 (rev blk)))) s)"

definition sha256_Sum :: "byte list \<Rightarrow> byte list" where
  "sha256_Sum m = concat (map be32 (foldl sha256_block sha256_init (sha_blocks (words32 (sha_pad m)))))"

lemma length_sha256_rounds: "length s = 8 \<Longrightarrow> length (sha256_rounds kws s) = 8"
  unfolding sha256_rounds_def
  by (induction kws arbitrary: s) (auto simp: sha256_round_def Let_def split: prod.splits)

lemma length_sha256_Sum [simp]: "length (sha256_Sum m) = 32"
proof -
  have blk: "length (sha256_block s b) = 8" if "length s = 8" for s b
    using that by (simp add: sha256_block_def length_sha256_rounds)
  have "length (foldl sha256_block s bs) = 8" if "length s = 8" for s bs
    using that by (induction bs arbitrary: s) (auto simp: blk)
  moreover have "length (concat (map be32 ws)) = 4 * length ws" for ws
    by (induction ws) auto
  ultimately show ?thesis by (simp add: sha256_Sum_def sha256_init_def)
qed

end
