(* ===== verification/LruCache.thy ===== *)
theory LruCache
  imports Main
begin

text \<open>
  \<open>hashicorp/golang-lru\<close> is not part of the repository: its operations are a parameter of the
  definitions that use a cache (the lock names of \<open>KeyMutex\<close>, the public keys of peers). What the code
  relies on is documented behaviour: a lookup answers with the value last added under the key or with
  nothing, and adding a value can only evict others. \<open>ct\<close> names the content of a cache.
\<close>

record ('c, 'k, 'v) lru_ops =
  lru_New :: "nat \<Rightarrow> 'c"
  lru_Get :: "'c \<Rightarrow> 'k \<Rightarrow> 'v option \<times> 'c"
  lru_Add :: "'c \<Rightarrow> 'k \<Rightarrow> 'v \<Rightarrow> 'c"

type_synonym 'c lru = "('c, string, string) lru_ops"

definition lru_laws :: "('c, 'k, 'v) lru_ops \<Rightarrow> ('c \<Rightarrow> 'k \<rightharpoonup> 'v) \<Rightarrow> bool" where
  "lru_laws L ct \<longleftrightarrow>
     (\<forall>n. ct (lru_New L n) = Map.empty) \<and>
     (\<forall>c k. fst (lru_Get L c k) = ct c k \<and> ct (snd (lru_Get L c k)) = ct c) \<and>
     (\<forall>c k v. ct (lru_Add L c k v) \<subseteq>\<^sub>m (ct c)(k \<mapsto> v))"

lemma lru_lawsD:
  assumes "lru_laws L ct"
  shows "ct (lru_New L n) = Map.empty"
    and "lru_Get L c k = (x, c') \<Longrightarrow> x = ct c k \<and> ct c' = ct c"
    and "ct (lru_Add L c k v) j = Some w \<Longrightarrow> ((ct c)(k \<mapsto> v)) j = Some w"
proof -
  show "ct (lru_New L n) = Map.empty" using assms by (simp add: lru_laws_def)
  show "lru_Get L c k = (x, c') \<Longrightarrow> x = ct c k \<and> ct c' = ct c"
    using assms unfolding lru_laws_def by (metis fst_conv snd_conv)
  have "ct (lru_Add L c k v) \<subseteq>\<^sub>m (ct c)(k \<mapsto> v)" using assms by (simp add: lru_laws_def)
  then show "ct (lru_Add L c k v) j = Some w \<Longrightarrow> ((ct c)(k \<mapsto> v)) j = Some w"
    unfolding map_le_def by (metis domI)
qed

text \<open>
  A memo: the function \<open>f\<close> is computed on a miss and added. \<open>memo_ok\<close> says that the cache holds nothing
  but values of \<open>f\<close>; a client that only adds such values never reads anything else.
\<close>

definition memo_ok :: "('c \<Rightarrow> 'k \<rightharpoonup> 'v) \<Rightarrow> ('k \<Rightarrow> 'v option) \<Rightarrow> 'c \<Rightarrow> bool" where
  "memo_ok ct f c \<longleftrightarrow> (\<forall>k v. ct c k = Some v \<longrightarrow> f k = Some v)"

lemma memo_ok_New: "lru_laws L ct \<Longrightarrow> memo_ok ct f (lru_New L n)"
  by (simp add: memo_ok_def lru_lawsD)

lemma memo_ok_Get: "lru_laws L ct \<Longrightarrow> memo_ok ct f c \<Longrightarrow> lru_Get L c k = (x, c') \<Longrightarrow>
    memo_ok ct f c' \<and> (\<forall>v. x = Some v \<longrightarrow> f k = Some v)"
  using lru_lawsD(2) [of L ct c k x c'] by (auto simp: memo_ok_def)

lemma memo_ok_Add: "lru_laws L ct \<Longrightarrow> memo_ok ct f c \<Longrightarrow> f k = Some v \<Longrightarrow> memo_ok ct f (lru_Add L c k v)"
  using lru_lawsD(3) [of L ct c k v] by (fastforce simp: memo_ok_def split: if_splits)

text \<open>A bounded first-in first-out cache obeys the laws, so they can be satisfied.\<close>

definition fifo_lru :: "(nat \<times> ('k \<times> 'v) list, 'k, 'v) lru_ops" where
  "fifo_lru = \<lparr>lru_New = (\<lambda>n. (n, [])), lru_Get = (\<lambda>c k. (map_of (snd c) k, c)),
     lru_Add = (\<lambda>c k v. (fst c, take (fst c) ((k, v) # snd c)))\<rparr>"

lemma map_of_take_le: "map_of (take n xs) \<subseteq>\<^sub>m map_of xs"
proof -
  have "map_of xs = map_of (take n xs @ drop n xs)" by simp
  then show ?thesis by (metis map_of_append map_le_map_add)
qed

lemma fifo_lru_laws: "lru_laws fifo_lru (\<lambda>c. map_of (snd c))"
  unfolding lru_laws_def fifo_lru_def
  by simp (metis map_of_take_le map_of.simps(2) fst_conv snd_conv)

end
