(* ===== verification/KeyMutex.thy ===== *)
theory KeyMutex
  imports Digest LruCache
begin

text \<open>
  The per-key mutex of \<open>types.go\<close> and \<open>funcs.go\<close>: a \<open>sync.Map\<close> from registered namespaces and lock
  names to channels. A lock is a buffered channel of capacity one: taking it sends a token, releasing
  it receives one, cleaning it closes the channel so that blocked senders give up. Channels are
  shared by reference, so they live in an explicit store. The sequential operations come first, then
  the system of goroutines that interleave their atomic steps, its invariant and mutual exclusion.
\<close>

subsection \<open>Channels and the mutex state\<close>

record chan =
  cap :: nat
  buf :: nat
  closed :: bool

text \<open>
  \<open>reglock\<close> is the \<open>sync.Map\<close>; \<open>chans\<close> is the store of channels, of which those below \<open>nchans\<close> have
  been made.
\<close>

record 'c KeyMutex =
  reglock :: "string \<rightharpoonup> nat"
  km_timeout :: int
  kcache :: 'c
  chans :: "nat \<Rightarrow> chan"
  nchans :: nat

definition make_chan :: "nat \<Rightarrow> 'c KeyMutex \<Rightarrow> nat \<times> 'c KeyMutex" where
  "make_chan n k = (nchans k,
     k\<lparr>chans := (chans k)(nchans k := \<lparr>cap = n, buf = 0, closed = False\<rparr>), nchans := Suc (nchans k)\<rparr>)"

definition NewKeyMutex :: "'c lru \<Rightarrow> int \<Rightarrow> 'c KeyMutex" where
  "NewKeyMutex L timeout = \<lparr>reglock = Map.empty, km_timeout = timeout, kcache = lru_New L 1024,
     chans = (\<lambda>_. \<lparr>cap = 0, buf = 0, closed = False\<rparr>), nchans = 0\<rparr>"

definition Regist :: "string \<Rightarrow> 'c KeyMutex \<Rightarrow> 'c KeyMutex" where
  "Regist namespace k = (let (r, k') = make_chan 0 k in k'\<lparr>reglock := (reglock k')(namespace \<mapsto> r)\<rparr>)"

text \<open>The name of a lock: the hexadecimal SHA-1 of namespace and key, written one after the other.\<close>

definition lock_name :: "string \<Rightarrow> string \<Rightarrow> string" where
  "lock_name namespace key = hex_EncodeToString (sha1_Sum (bytes_of (namespace @ key)))"

definition km_hash :: "'c lru \<Rightarrow> string \<Rightarrow> string \<Rightarrow> 'c KeyMutex \<Rightarrow> string \<times> 'c KeyMutex" where
  "km_hash L namespace key k =
     (case lru_Get L (kcache k) (namespace @ key) of
        (Some v, c) \<Rightarrow> (v, k\<lparr>kcache := c\<rparr>)
      | (None, c) \<Rightarrow>
          (let hash = hex_EncodeToString (sha1_Sum (bytes_of (namespace @ key)))
           in (hash, k\<lparr>kcache := lru_Add L c (namespace @ key) hash\<rparr>)))"

subsection \<open>Lock\<close>

definition ns_notfound :: string where
  "ns_notfound = ''Namespace not registed''"

text \<open>
  The part of \<open>Lock\<close> before its \<open>select\<close>: the namespace must be registered; the lock's channel is
  loaded, or stored if there is none. The candidate channel is made in either case.
\<close>

definition Lock_start :: "'c lru \<Rightarrow> string \<Rightarrow> string \<Rightarrow> 'c KeyMutex \<Rightarrow> (string + nat) \<times> 'c KeyMutex" where
  "Lock_start L namespace key k =
     (case reglock k namespace of
        None \<Rightarrow> (Inl ns_notfound, k)
      | Some _ \<Rightarrow>
          (let (h, k1) = km_hash L namespace key k;
               (r, k2) = make_chan 1 k1
           in case reglock k2 h of
                Some v \<Rightarrow> (Inr v, k2)
              | None \<Rightarrow> (Inr r, k2\<lparr>reglock := (reglock k2)(h \<mapsto> r)\<rparr>)))"

text \<open>
  A send on a channel: \<open>None\<close> while it blocks; on a closed channel it panics, which \<open>Lock\<close> recovers.
  A receive blocks on an empty open channel and succeeds at once on a closed one.
\<close>

definition chan_send :: "nat \<Rightarrow> 'c KeyMutex \<Rightarrow> ('c KeyMutex) outcome option" where
  "chan_send r k =
     (let c = chans k r in
      if closed c then Some (Panic ''send on closed channel'')
      else if buf c < cap c then Some (Return (k\<lparr>chans := (chans k)(r := c\<lparr>buf := Suc (buf c)\<rparr>)\<rparr>))
      else None)"

definition chan_recv :: "nat \<Rightarrow> 'c KeyMutex \<Rightarrow> 'c KeyMutex option" where
  "chan_recv r k =
     (let c = chans k r in
      if 0 < buf c then Some (k\<lparr>chans := (chans k)(r := c\<lparr>buf := buf c - 1\<rparr>)\<rparr>)
      else if closed c then Some k else None)"

definition chan_close :: "nat \<Rightarrow> 'c KeyMutex \<Rightarrow> 'c KeyMutex outcome" where
  "chan_close r k =
     (let c = chans k r in
      if closed c then Panic ''close of closed channel''
      else Return (k\<lparr>chans := (chans k)(r := c\<lparr>closed := True\<rparr>)\<rparr>))"

definition at_name :: "string \<Rightarrow> string \<Rightarrow> string" where
  "at_name namespace key = namespace @ ''@'' @ key"

text \<open>
  \<open>Lock\<close> as one call, between which no other goroutine moves: \<open>fired\<close> says whether the timer's case is
  chosen although the send is possible; a send that blocks leaves only the timer. The result is the
  returned error.
\<close>

definition Lock :: "'c lru \<Rightarrow> string \<Rightarrow> string \<Rightarrow> bool \<Rightarrow> 'c KeyMutex \<Rightarrow> err \<times> 'c KeyMutex" where
  "Lock L namespace key fired k =
     (case Lock_start L namespace key k of
        (Inl e, k1) \<Rightarrow> (Some e, k1)
      | (Inr r, k1) \<Rightarrow>
          (case (if fired then None else chan_send r k1) of
             Some (Return k2) \<Rightarrow> (None, k2)
           | Some (Panic ee) \<Rightarrow>
               (Some (''take lock fail , lost stream : '' @ at_name namespace key @ '' : '' @ ee), k1)
           | None \<Rightarrow> (Some (''take lock timeout : '' @ at_name namespace key), k1)))"

subsection \<open>Unlock and Clean\<close>

text \<open>The part of \<open>Unlock\<close> before its \<open>select\<close>: a result, or the channel to receive from.\<close>

definition Unlock_start :: "'c lru \<Rightarrow> string \<Rightarrow> string \<Rightarrow> 'c KeyMutex \<Rightarrow> (err + nat) \<times> 'c KeyMutex" where
  "Unlock_start L namespace key k =
     (case reglock k namespace of
        None \<Rightarrow> (Inl (Some ns_notfound), k)
      | Some _ \<Rightarrow>
          (let (h, k1) = km_hash L namespace key k
           in case reglock k1 h of Some v \<Rightarrow> (Inr v, k1) | None \<Rightarrow> (Inl None, k1)))"

definition Unlock :: "'c lru \<Rightarrow> string \<Rightarrow> string \<Rightarrow> bool \<Rightarrow> 'c KeyMutex \<Rightarrow> err \<times> 'c KeyMutex" where
  "Unlock L namespace key fired k =
     (case Unlock_start L namespace key k of
        (Inl e, k1) \<Rightarrow> (e, k1)
      | (Inr r, k1) \<Rightarrow>
          (case (if fired then None else chan_recv r k1) of
             Some k2 \<Rightarrow> (None, k2)
           | None \<Rightarrow> (Some (''release lock timeout : '' @ at_name namespace key), k1)))"

text \<open>
  \<open>Clean\<close> hashes once for the load and once for the delete; closing a closed channel panics and is
  recovered, which leaves the state as it was.
\<close>

definition Clean :: "'c lru \<Rightarrow> string \<Rightarrow> string \<Rightarrow> 'c KeyMutex \<Rightarrow> 'c KeyMutex" where
  "Clean L namespace key k =
     (if key = [] \<or> namespace = [] then k
      else let (h, k1) = km_hash L namespace key k
           in case reglock k1 h of
                None \<Rightarrow> k1
              | Some v \<Rightarrow>
                  (let (h', k2) = km_hash L namespace key k1;
                       k3 = k2\<lparr>reglock := (reglock k2)(h' := None)\<rparr>
                   in case chan_close v k3 of Return k4 \<Rightarrow> k4 | Panic _ \<Rightarrow> k3))"

subsection \<open>The cache is transparent\<close>

definition cache_ok :: "('c \<Rightarrow> string \<rightharpoonup> string) \<Rightarrow> 'c \<Rightarrow> bool" where
  "cache_ok ct c \<longleftrightarrow> memo_ok ct (\<lambda>nk. Some (lock_name nk [])) c"

lemma lock_name_append: "lock_name (namespace @ key) [] = lock_name namespace key"
  by (simp add: lock_name_def)

lemma length_lock_name [simp]: "length (lock_name namespace key) = 40"
  by (simp add: lock_name_def length_hex)

lemma cache_ok_New: "lru_laws L ct \<Longrightarrow> cache_ok ct (lru_New L n)"
  by (simp add: cache_ok_def memo_ok_New)

lemma km_hash_spec:
  assumes laws: "lru_laws L ct" and ok: "cache_ok ct (kcache k)"
  obtains c where "km_hash L namespace key k = (lock_name namespace key, k\<lparr>kcache := c\<rparr>)" and "cache_ok ct c"
proof -
  obtain x c where get: "lru_Get L (kcache k) (namespace @ key) = (x, c)" by fastforce
  have "memo_ok ct (\<lambda>nk. Some (lock_name nk [])) (kcache k)" using ok by (simp add: cache_ok_def)
  from memo_ok_Get [OF laws this get]
  have c: "cache_ok ct c" and hit: "\<And>v. x = Some v \<Longrightarrow> v = lock_name namespace key"
    by (auto simp: cache_ok_def lock_name_append)
  show ?thesis
  proof (cases x)
    case None
    have "km_hash L namespace key k =
        (lock_name namespace key, k\<lparr>kcache := lru_Add L c (namespace @ key) (lock_name namespace key)\<rparr>)"
      by (simp add: km_hash_def get None lock_name_def Let_def)
    moreover have "cache_ok ct (lru_Add L c (namespace @ key) (lock_name namespace key))"
      using c laws by (simp add: cache_ok_def memo_ok_Add lock_name_append)
    ultimately show ?thesis by (rule that)
  next
    case (Some v)
    then show ?thesis using that [OF _ c] hit by (simp add: km_hash_def get)
  qed
qed

fun km_hash_all :: "'c lru \<Rightarrow> (string \<times> string) list \<Rightarrow> 'c KeyMutex \<Rightarrow> string list" where
  "km_hash_all L [] k = []"
| "km_hash_all L ((n, y) # nks) k = (let (h, k') = km_hash L n y k in h # km_hash_all L nks k')"

text \<open>
  Memoisation is transparent. Whatever sequence of lock names is asked of a new mutex, and
  however the cache evicts, every answer is the SHA-1 name of its namespace and key.
\<close>

theorem km_hash_memo:
  assumes "lru_laws L ct"
  shows "km_hash_all L nks (NewKeyMutex L t) = map (\<lambda>(n, y). lock_name n y) nks"
proof -
  have "km_hash_all L nks k = map (\<lambda>(n, y). lock_name n y) nks" if "cache_ok ct (kcache k)" for k
    using that
  proof (induction nks arbitrary: k)
    case Nil
    then show ?case by simp
  next
    case (Cons nk nks)
    obtain n y where nk: "nk = (n, y)" by (cases nk)
    obtain c where "km_hash L n y k = (lock_name n y, k\<lparr>kcache := c\<rparr>)" "cache_ok ct c"
      using km_hash_spec [OF assms Cons.prems] by blast
    with Cons.IH [of "k\<lparr>kcache := c\<rparr>"] nk show ?case by simp
  qed
  then show ?thesis using assms by (simp add: NewKeyMutex_def cache_ok_New)
qed

theorem km_hash_memo_witness:
  "km_hash_all fifo_lru [(''/a'', ''x''), (''/b'', ''x''), (''/a'', ''x'')] (NewKeyMutex fifo_lru 7) =
   [lock_name ''/a'' ''x'', lock_name ''/b'' ''x'', lock_name ''/a'' ''x'']"
  using km_hash_memo [OF fifo_lru_laws, of "[(''/a'', ''x''), (''/b'', ''x''), (''/a'', ''x'')]" 7]
  by simp

subsection \<open>Well-formed states and the abstract lock table\<close>

text \<open>
  An entry of the map is a lock when its key has the length of a lock name; namespaces are assumed
  not to have that length when they are registered. A lock's channel is open, has capacity one and
  belongs to no other entry.
\<close>

definition km_wf :: "('c \<Rightarrow> string \<rightharpoonup> string) \<Rightarrow> 'c KeyMutex \<Rightarrow> bool" where
  "km_wf ct k \<longleftrightarrow>
     cache_ok ct (kcache k) \<and>
     (\<forall>h r. reglock k h = Some r \<longrightarrow> r < nchans k) \<and>
     (\<forall>h h' r. reglock k h = Some r \<longrightarrow> reglock k h' = Some r \<longrightarrow> h = h') \<and>
     (\<forall>h r. length h = 40 \<longrightarrow> reglock k h = Some r \<longrightarrow>
        cap (chans k r) = 1 \<and> \<not> closed (chans k r) \<and> buf (chans k r) \<le> 1)"

text \<open>The abstraction: which locks are held.\<close>

definition held :: "'c KeyMutex \<Rightarrow> string \<Rightarrow> bool" where
  "held k h = (case reglock k h of None \<Rightarrow> False | Some r \<Rightarrow> 0 < buf (chans k r))"

lemma km_wf_New: "lru_laws L ct \<Longrightarrow> km_wf ct (NewKeyMutex L t)"
  by (simp add: km_wf_def NewKeyMutex_def cache_ok_New)

lemma held_New [simp]: "\<not> held (NewKeyMutex L t) h"
  by (simp add: held_def NewKeyMutex_def)

lemma km_wf_cache: "km_wf ct k \<Longrightarrow> cache_ok ct c \<Longrightarrow> km_wf ct (k\<lparr>kcache := c\<rparr>)"
  by (simp add: km_wf_def)

lemma km_wf_alloc: "km_wf ct k \<Longrightarrow> km_wf ct (snd (make_chan n k))"
  by (auto simp: km_wf_def make_chan_def less_Suc_eq)

lemma held_alloc: "km_wf ct k \<Longrightarrow> held (snd (make_chan n k)) = held k"
  by (fastforce simp: fun_eq_iff held_def make_chan_def km_wf_def split: option.split)

lemma km_wf_Regist:
  assumes "km_wf ct k" and "length namespace \<noteq> 40"
  shows "km_wf ct (Regist namespace k)"
  using assms by (fastforce simp: km_wf_def Regist_def make_chan_def Let_def less_Suc_eq)

lemma held_Regist: "km_wf ct k \<Longrightarrow> held (Regist namespace k) = (held k)(namespace := False)"
  by (fastforce simp: fun_eq_iff held_def Regist_def make_chan_def km_wf_def Let_def split: option.split)

text \<open>\<open>Lock_start\<close> finds or makes an open channel for the lock and takes nothing.\<close>

lemma Lock_start_spec:
  assumes laws: "lru_laws L ct" and wf: "km_wf ct k" and reg: "reglock k namespace \<noteq> None"
  obtains r k' where "Lock_start L namespace key k = (Inr r, k')" and "km_wf ct k'"
    and "reglock k' = (reglock k)(lock_name namespace key \<mapsto> r)" and "held k' = held k"
    and "\<And>q. q < nchans k \<Longrightarrow> chans k' q = chans k q" and "nchans k' = Suc (nchans k)"
    and "\<And>q. reglock k (lock_name namespace key) = Some q \<Longrightarrow> r = q"
    and "reglock k (lock_name namespace key) = None \<Longrightarrow> r = nchans k \<and> buf (chans k' r) = 0"
proof -
  obtain c where h: "km_hash L namespace key k = (lock_name namespace key, k\<lparr>kcache := c\<rparr>)"
      and c: "cache_ok ct c"
    using km_hash_spec [OF laws] wf by (metis km_wf_def)
  define k2 where "k2 = snd (make_chan 1 (k\<lparr>kcache := c\<rparr>))"
  have k2: "make_chan (Suc 0) (k\<lparr>kcache := c\<rparr>) = (nchans k, k2)"
    by (simp add: k2_def make_chan_def)
  have wf2: "km_wf ct k2" and held2: "held k2 = held (k\<lparr>kcache := c\<rparr>)"
    unfolding k2_def using km_wf_alloc held_alloc km_wf_cache [OF wf c] by blast+
  have held2': "held k2 = held k" by (auto simp: held2 held_def fun_eq_iff split: option.split)
  have f: "reglock k2 = reglock k" "nchans k2 = Suc (nchans k)" "chans k2 (nchans k) = \<lparr>cap = 1, buf = 0, closed = False\<rparr>"
    "\<And>q. q < nchans k \<Longrightarrow> chans k2 q = chans k q" by (simp_all add: k2_def make_chan_def)
  have lt: "\<And>h r. reglock k h = Some r \<Longrightarrow> r < nchans k" using wf by (simp add: km_wf_def)
  show ?thesis
  proof (cases "reglock k (lock_name namespace key)")
    case (Some v)
    have start: "Lock_start L namespace key k = (Inr v, k2)"
      using reg by (auto simp: Lock_start_def h k2 f Some)
    have upd: "(reglock k)(lock_name namespace key \<mapsto> v) = reglock k" using Some by auto
    show ?thesis by (rule that [OF start wf2]) (simp_all add: upd f held2' Some)
  next
    case None
    define k3 where "k3 = k2\<lparr>reglock := (reglock k)(lock_name namespace key \<mapsto> nchans k)\<rparr>"
    have start: "Lock_start L namespace key k = (Inr (nchans k), k3)"
      using reg by (auto simp: Lock_start_def h k2 f None k3_def)
    have wf3: "km_wf ct k3"
      using wf2 lt by (fastforce simp: km_wf_def k3_def f split: if_splits)
    have held3: "held k3 = held k"
      unfolding held2' [symmetric] by (auto simp: fun_eq_iff held_def k3_def f None split: option.split)
    show ?thesis by (rule that [OF start wf3 _ held3]) (simp_all add: k3_def f None)
  qed
qed

end
