(* ===== verification/KeyLock.thy ===== *)
theory KeyLock
  imports KeyMutex
begin

text \<open>
  What \<open>KeyMutex\<close> promises to a caller that uses it sequentially: an abstract table of held locks,
  which \<open>Lock\<close>, \<open>Unlock\<close> and \<open>Clean\<close> refine on every branch. The promise is the locale \<open>key_lock\<close>; the
  bracket that \<open>RequestWithTimeout\<close> and \<open>SendMsgAfterClose\<close> put around their work is proved inside it.
\<close>

subsection \<open>The interface\<close>

text \<open>
  \<open>name\<close> maps a caller's key to the lock it designates (two keys may designate the same lock), \<open>registered\<close>
  says that the key's namespace is known. \<open>acquire\<close> takes the choice of the timer.
\<close>

locale key_lock =
  fixes inv :: "'s \<Rightarrow> bool"
    and name :: "'k \<Rightarrow> 'n"
    and registered :: "'s \<Rightarrow> 'k \<Rightarrow> bool"
    and held :: "'s \<Rightarrow> 'n \<Rightarrow> bool"
    and acquire :: "'k \<Rightarrow> bool \<Rightarrow> 's \<Rightarrow> err \<times> 's"
    and release :: "'k \<Rightarrow> bool \<Rightarrow> 's \<Rightarrow> err \<times> 's"
    and drop_lock :: "'k \<Rightarrow> 's \<Rightarrow> 's"
  assumes acquire_inv: "inv s \<Longrightarrow> inv (snd (acquire k b s))"
    and release_inv: "inv s \<Longrightarrow> inv (snd (release k b s))"
    and drop_inv: "inv s \<Longrightarrow> inv (drop_lock k s)"
    and acquire_iff: "inv s \<Longrightarrow> registered s k \<Longrightarrow>
          fst (acquire k b s) = None \<longleftrightarrow> \<not> b \<and> \<not> held s (name k)"
    and acquire_held: "inv s \<Longrightarrow> fst (acquire k b s) = None \<Longrightarrow>
          held (snd (acquire k b s)) = (held s)(name k := True)"
    and acquire_fail: "inv s \<Longrightarrow> fst (acquire k b s) \<noteq> None \<Longrightarrow> held (snd (acquire k b s)) = held s"
    and release_held: "inv s \<Longrightarrow> registered s k \<Longrightarrow>
          held (snd (release k False s)) = (held s)(name k := False)"
    and release_ok: "inv s \<Longrightarrow> registered s k \<Longrightarrow> held s (name k) \<Longrightarrow> fst (release k False s) = None"
    and drop_held: "inv s \<Longrightarrow> held (drop_lock k s) = (held s)(name k := False) \<or> held (drop_lock k s) = held s"
    and acquire_reg: "inv s \<Longrightarrow> registered s k' \<Longrightarrow> registered (snd (acquire k b s)) k'"
    and release_reg: "inv s \<Longrightarrow> registered s k' \<Longrightarrow> registered (snd (release k b s)) k'"
    and drop_reg: "inv s \<Longrightarrow> registered s k' \<Longrightarrow> registered (drop_lock k s) k'"
begin

text \<open>
  The bracket: if taking the lock succeeds, then whatever the body does that keeps the invariant, the
  registration and the other locks (dropping the lock included), releasing it afterwards restores
  the table of held locks.
\<close>

lemma bracket:
  assumes "inv s" and reg: "registered s k" and ok: "fst (acquire k b s) = None"
    and body_inv: "inv s'" and body_reg: "registered s' k"
    and body_frame: "\<And>n. n \<noteq> name k \<Longrightarrow> held s' n = held (snd (acquire k b s)) n"
  shows "held (snd (release k False s')) = held s"
proof
  fix n
  have "\<not> held s (name k)" using assms acquire_iff by blast
  then show "held (snd (release k False s')) n = held s n"
    using assms acquire_held release_held by (cases "n = name k") auto
qed

lemma no_reentry:
  assumes "inv s" and "registered s k" and "fst (acquire k b s) = None" and "name k = name k'"
    and "registered s k'"
  shows "fst (acquire k' b' (snd (acquire k b s))) \<noteq> None"
  using assms acquire_inv acquire_reg acquire_iff [of "snd (acquire k b s)" k' b'] acquire_held
  by (metis fun_upd_same)

end

subsection \<open>Lock, Unlock and Clean on the abstract table\<close>

abbreviation registered_ns :: "'c KeyMutex \<Rightarrow> string \<Rightarrow> bool" where
  "registered_ns k namespace \<equiv> reglock k namespace \<noteq> None"

lemma set_buf:
  assumes wf: "km_wf ct k" and r: "reglock k h = Some r" and len: "length h = 40" and "b \<le> 1"
  defines "k' \<equiv> k\<lparr>chans := (chans k)(r := (chans k r)\<lparr>buf := b\<rparr>)\<rparr>"
  shows "km_wf ct k'" and "held k' = (held k)(h := 0 < b)" and "reglock k' = reglock k"
proof -
  show "km_wf ct k'" using assms by (auto simp: km_wf_def k'_def)
  have "reglock k h' = Some r \<Longrightarrow> h' = h" for h' using wf r unfolding km_wf_def by blast
  then show "held k' = (held k)(h := 0 < b)"
    by (auto simp: fun_eq_iff held_def k'_def r split: option.split)
qed (simp add: k'_def)

lemma chan_send_lock:
  assumes "km_wf ct k" and "reglock k h = Some r" and "length h = 40"
  shows "chan_send r k =
    (if held k h then None else Some (Return (k\<lparr>chans := (chans k)(r := (chans k r)\<lparr>buf := 1\<rparr>)\<rparr>)))"
  using assms by (auto simp: km_wf_def chan_send_def held_def Let_def)

lemma chan_recv_lock:
  assumes "km_wf ct k" and "reglock k h = Some r" and "length h = 40"
  shows "chan_recv r k =
    (if held k h then Some (k\<lparr>chans := (chans k)(r := (chans k r)\<lparr>buf := 0\<rparr>)\<rparr>) else None)"
  using assms by (fastforce simp: km_wf_def chan_recv_def held_def Let_def le_Suc_eq)

lemma Lock_unregistered: "\<not> registered_ns k namespace \<Longrightarrow> Lock L namespace key b k = (Some ns_notfound, k)"
  by (simp add: Lock_def Lock_start_def)

lemma Lock_spec:
  assumes laws: "lru_laws L ct" and wf: "km_wf ct k" and reg: "registered_ns k namespace"
  shows "km_wf ct (snd (Lock L namespace key b k))"
    and "fst (Lock L namespace key b k) = None \<longleftrightarrow> \<not> b \<and> \<not> held k (lock_name namespace key)"
    and "held (snd (Lock L namespace key b k)) =
         (if fst (Lock L namespace key b k) = None then (held k)(lock_name namespace key := True) else held k)"
    and "registered_ns k x \<Longrightarrow> registered_ns (snd (Lock L namespace key b k)) x"
proof -
  let ?n = "lock_name namespace key"
  obtain r k' where start: "Lock_start L namespace key k = (Inr r, k')" and wf': "km_wf ct k'"
    and reg': "reglock k' = (reglock k)(?n \<mapsto> r)" and held': "held k' = held k"
    using Lock_start_spec [OF laws wf reg] by metis
  have r: "reglock k' ?n = Some r" by (simp add: reg')
  note send = chan_send_lock [OF wf' r length_lock_name]
  note upd = set_buf [OF wf' r length_lock_name, of 1, simplified]
  show "km_wf ct (snd (Lock L namespace key b k))"
    using upd wf' by (auto simp: Lock_def start send)
  show "fst (Lock L namespace key b k) = None \<longleftrightarrow> \<not> b \<and> \<not> held k ?n"
    by (auto simp: Lock_def start send held')
  show "held (snd (Lock L namespace key b k)) =
      (if fst (Lock L namespace key b k) = None then (held k)(?n := True) else held k)"
    using upd by (auto simp: Lock_def start send held')
  show "registered_ns k x \<Longrightarrow> registered_ns (snd (Lock L namespace key b k)) x"
    using upd by (auto simp: Lock_def start send reg')
qed

lemma Unlock_start_spec:
  assumes laws: "lru_laws L ct" and wf: "km_wf ct k" and reg: "registered_ns k namespace"
  obtains k' where "km_wf ct k'" and "reglock k' = reglock k" and "held k' = held k" and "chans k' = chans k"
    and "nchans k' = nchans k"
    and "Unlock_start L namespace key k =
      (case reglock k (lock_name namespace key) of None \<Rightarrow> Inl None | Some r \<Rightarrow> Inr r, k')"
proof -
  obtain c where h: "km_hash L namespace key k = (lock_name namespace key, k\<lparr>kcache := c\<rparr>)"
      and c: "cache_ok ct c"
    using km_hash_spec [OF laws] wf by (metis km_wf_def)
  show ?thesis
  proof (rule that [of "k\<lparr>kcache := c\<rparr>"])
    show "km_wf ct (k\<lparr>kcache := c\<rparr>)" by (rule km_wf_cache [OF wf c])
    show "held (k\<lparr>kcache := c\<rparr>) = held k" by (auto simp: held_def fun_eq_iff split: option.split)
    show "Unlock_start L namespace key k =
      (case reglock k (lock_name namespace key) of None \<Rightarrow> Inl None | Some r \<Rightarrow> Inr r, k\<lparr>kcache := c\<rparr>)"
      using reg by (auto simp: Unlock_start_def h split: option.split)
  qed simp_all
qed

lemma Unlock_spec:
  assumes laws: "lru_laws L ct" and wf: "km_wf ct k" and reg: "registered_ns k namespace"
  shows "km_wf ct (snd (Unlock L namespace key b k))"
    and "held (snd (Unlock L namespace key False k)) = (held k)(lock_name namespace key := False)"
    and "held k (lock_name namespace key) \<Longrightarrow> fst (Unlock L namespace key False k) = None"
    and "reglock (snd (Unlock L namespace key b k)) = reglock k"
proof -
  let ?n = "lock_name namespace key"
  obtain k' where k': "km_wf ct k'" "reglock k' = reglock k" "held k' = held k"
    and start: "Unlock_start L namespace key k =
      (case reglock k ?n of None \<Rightarrow> Inl None | Some r \<Rightarrow> Inr r, k')"
    using Unlock_start_spec [OF laws wf reg] by metis
  have recv: "chan_recv r k' =
      (if held k ?n then Some (k'\<lparr>chans := (chans k')(r := (chans k' r)\<lparr>buf := 0\<rparr>)\<rparr>) else None)"
    if "reglock k ?n = Some r" for r
    using chan_recv_lock [OF k'(1) _ length_lock_name] that k' by simp
  have upd: "km_wf ct (k'\<lparr>chans := (chans k')(r := (chans k' r)\<lparr>buf := 0\<rparr>)\<rparr>)"
      "held (k'\<lparr>chans := (chans k')(r := (chans k' r)\<lparr>buf := 0\<rparr>)\<rparr>) = (held k)(?n := False)"
    if "reglock k ?n = Some r" for r
    using set_buf [OF k'(1) _ length_lock_name, of namespace key r 0] that k' by simp_all
  have no: "\<not> held k ?n" if "reglock k ?n = None" using that by (simp add: held_def)
  show "km_wf ct (snd (Unlock L namespace key b k))"
    using k' upd by (auto simp: Unlock_def start recv split: option.split)
  show "held (snd (Unlock L namespace key False k)) = (held k)(?n := False)"
    using k' upd no by (auto simp: Unlock_def start recv fun_eq_iff split: option.split)
  show "held k ?n \<Longrightarrow> fst (Unlock L namespace key False k) = None"
    using no by (auto simp: Unlock_def start recv split: option.split)
  show "reglock (snd (Unlock L namespace key b k)) = reglock k"
    using k' by (auto simp: Unlock_def start recv split: option.split)
qed

text \<open>The errors: on a well-formed mutex a channel is never closed, so only the timers and the namespace make one.\<close>

lemma Lock_result:
  assumes laws: "lru_laws L ct" and wf: "km_wf ct k"
  shows "fst (Lock L namespace key b k) =
    (if reglock k namespace = None then Some ns_notfound
     else if b \<or> held k (lock_name namespace key) then Some (''take lock timeout : '' @ at_name namespace key)
     else None)"
proof (cases "reglock k namespace = None")
  case True
  then show ?thesis by (simp add: Lock_unregistered)
next
  case False
  let ?n = "lock_name namespace key"
  obtain r k' where start: "Lock_start L namespace key k = (Inr r, k')" and wf': "km_wf ct k'"
    and reg': "reglock k' = (reglock k)(?n \<mapsto> r)" and held': "held k' = held k"
    using Lock_start_spec [OF laws wf False] by metis
  have "reglock k' ?n = Some r" by (simp add: reg')
  from chan_send_lock [OF wf' this length_lock_name] show ?thesis
    using False by (auto simp: Lock_def start held')
qed

lemma Unlock_result:
  assumes laws: "lru_laws L ct" and wf: "km_wf ct k" and reg: "registered_ns k namespace"
  shows "fst (Unlock L namespace key b k) =
    (if reglock k (lock_name namespace key) = None \<or> held k (lock_name namespace key) \<and> \<not> b then None
     else Some (''release lock timeout : '' @ at_name namespace key))"
    and "held (snd (Unlock L namespace key True k)) = held k"
proof -
  let ?n = "lock_name namespace key"
  obtain k' where k': "km_wf ct k'" "reglock k' = reglock k" "held k' = held k"
    and start: "Unlock_start L namespace key k =
      (case reglock k ?n of None \<Rightarrow> Inl None | Some r \<Rightarrow> Inr r, k')"
    using Unlock_start_spec [OF laws wf reg] by metis
  show "fst (Unlock L namespace key b k) =
    (if reglock k ?n = None \<or> held k ?n \<and> \<not> b then None
     else Some (''release lock timeout : '' @ at_name namespace key))"
    using chan_recv_lock [OF k'(1) _ length_lock_name] k'(2,3)
    by (auto simp: Unlock_def start split: option.split)
  show "held (snd (Unlock L namespace key True k)) = held k"
    using k'(3) by (auto simp: Unlock_def start split: option.split)
qed

lemma Unlock_unregistered: "\<not> registered_ns k namespace \<Longrightarrow> Unlock L namespace key b k = (Some ns_notfound, k)"
  by (simp add: Unlock_def Unlock_start_def)

lemma Clean_spec:
  assumes laws: "lru_laws L ct" and wf: "km_wf ct k" and "namespace \<noteq> []" and "key \<noteq> []"
  shows "km_wf ct (Clean L namespace key k)"
    and "reglock (Clean L namespace key k) = (reglock k)(lock_name namespace key := None)"
    and "held (Clean L namespace key k) = (held k)(lock_name namespace key := False)"
proof -
  let ?n = "lock_name namespace key"
  obtain c where h: "km_hash L namespace key k = (?n, k\<lparr>kcache := c\<rparr>)" and c: "cache_ok ct c"
    using km_hash_spec [OF laws] wf by (metis km_wf_def)
  obtain c' where h': "km_hash L namespace key (k\<lparr>kcache := c\<rparr>) = (?n, k\<lparr>kcache := c'\<rparr>)" and c': "cache_ok ct c'"
    using km_hash_spec [OF laws, of "k\<lparr>kcache := c\<rparr>"] c by auto
  show "km_wf ct (Clean L namespace key k)"
    and "reglock (Clean L namespace key k) = (reglock k)(?n := None)"
    and "held (Clean L namespace key k) = (held k)(?n := False)"
  proof (atomize (full), cases "reglock k ?n")
    case None
    then have "Clean L namespace key k = k\<lparr>kcache := c\<rparr>" using assms(3,4) by (simp add: Clean_def h)
    with None show "km_wf ct (Clean L namespace key k) \<and> reglock (Clean L namespace key k) = (reglock k)(?n := None) \<and>
        held (Clean L namespace key k) = (held k)(?n := False)"
      using km_wf_cache [OF wf c] by (auto simp: held_def fun_eq_iff split: option.split)
  next
    case (Some v)
    have open_v: "\<not> closed (chans k v)"
      using wf Some length_lock_name unfolding km_wf_def by blast
    have uniq: "reglock k x = Some v \<Longrightarrow> x = ?n" for x using wf Some unfolding km_wf_def by blast
    have eq: "Clean L namespace key k = k\<lparr>kcache := c', reglock := (reglock k)(?n := None),
        chans := (chans k)(v := (chans k v)\<lparr>closed := True\<rparr>)\<rparr>"
      using assms(3,4) open_v by (simp add: Clean_def h h' Some chan_close_def Let_def)
    show "km_wf ct (Clean L namespace key k) \<and> reglock (Clean L namespace key k) = (reglock k)(?n := None) \<and>
        held (Clean L namespace key k) = (held k)(?n := False)"
      unfolding eq using wf c' uniq
      by (auto simp: km_wf_def held_def fun_eq_iff split: option.split)
  qed
qed

lemma Clean_blank: "namespace = [] \<or> key = [] \<Longrightarrow> Clean L namespace key k = k"
  by (auto simp: Clean_def)

subsection \<open>The mutex provides the interface\<close>

text \<open>
  A namespace of forty characters could be confused with a lock name, so it does not count as
  registered for the interface; the library's laws are part of the invariant.
\<close>

definition km_inv :: "'c lru \<Rightarrow> ('c \<Rightarrow> string \<rightharpoonup> string) \<Rightarrow> 'c KeyMutex \<Rightarrow> bool" where
  "km_inv L ct k \<longleftrightarrow> lru_laws L ct \<and> km_wf ct k"

definition km_registered :: "'c KeyMutex \<Rightarrow> string \<times> string \<Rightarrow> bool" where
  "km_registered k nk \<longleftrightarrow> registered_ns k (fst nk) \<and> length (fst nk) \<noteq> 40"

lemma Lock_held_None:
  assumes "km_inv L ct k" and ok: "fst (Lock L namespace key b k) = None"
  shows "held (snd (Lock L namespace key b k)) = (held k)(lock_name namespace key := True)"
proof -
  have "registered_ns k namespace"
    using ok Lock_unregistered [of k namespace] by (cases "registered_ns k namespace") auto
  with assms Lock_spec(3) show ?thesis unfolding km_inv_def by (metis (full_types))
qed

lemma Lock_held_Some:
  assumes "km_inv L ct k" and "fst (Lock L namespace key b k) \<noteq> None"
  shows "held (snd (Lock L namespace key b k)) = held k"
  using assms Lock_spec(3) Lock_unregistered unfolding km_inv_def by (metis snd_conv)

lemma Lock_km_inv: "km_inv L ct k \<Longrightarrow> km_inv L ct (snd (Lock L namespace key b k))"
  using Lock_spec(1) Lock_unregistered unfolding km_inv_def by (metis snd_conv)

lemma Unlock_km_inv: "km_inv L ct k \<Longrightarrow> km_inv L ct (snd (Unlock L namespace key b k))"
  using Unlock_spec(1) Unlock_unregistered unfolding km_inv_def by (metis snd_conv)

lemma Clean_km_inv: "km_inv L ct k \<Longrightarrow> km_inv L ct (Clean L namespace key k)"
  using Clean_spec(1) Clean_blank unfolding km_inv_def by metis

lemma Lock_registered: "km_inv L ct k \<Longrightarrow> registered_ns k x \<Longrightarrow> registered_ns (snd (Lock L namespace key b k)) x"
  using Lock_spec(4) Lock_unregistered unfolding km_inv_def by (metis snd_conv)

lemma Unlock_reglock: "km_inv L ct k \<Longrightarrow> reglock (snd (Unlock L namespace key b k)) = reglock k"
  using Unlock_spec(4) Unlock_unregistered unfolding km_inv_def by (metis snd_conv)

lemma Clean_registered:
  "km_inv L ct k \<Longrightarrow> length x \<noteq> 40 \<Longrightarrow> reglock (Clean L namespace key k) x = reglock k x"
  using Clean_spec(2) [of L ct k namespace key] Clean_blank [of namespace key L k] length_lock_name
  unfolding km_inv_def by (metis fun_upd_other)

lemma Clean_held:
  "km_inv L ct k \<Longrightarrow> held (Clean L namespace key k) = (held k)(lock_name namespace key := False) \<or>
     held (Clean L namespace key k) = held k"
  using Clean_spec(3) [of L ct k namespace key] Clean_blank [of namespace key L k]
  unfolding km_inv_def by metis

interpretation km: key_lock "km_inv L ct" "\<lambda>(namespace, key). lock_name namespace key" km_registered held
  "\<lambda>(namespace, key). Lock L namespace key" "\<lambda>(namespace, key). Unlock L namespace key"
  "\<lambda>(namespace, key). Clean L namespace key" for L ct
proof (unfold_locales, goal_cases)
  case (1 s k b) then show ?case by (auto simp: Lock_km_inv split: prod.splits)
next
  case (2 s k b) then show ?case by (auto simp: Unlock_km_inv split: prod.splits)
next
  case (3 s k) then show ?case by (auto simp: Clean_km_inv split: prod.splits)
next
  case (4 s k b) then show ?case
    by (auto simp: km_inv_def km_registered_def Lock_spec(2) split: prod.splits)
next
  case (5 s k b) then show ?case by (auto simp: Lock_held_None split: prod.splits)
next
  case (6 s k b) then show ?case by (auto simp: Lock_held_Some split: prod.splits)
next
  case (7 s k) then show ?case
    by (auto simp: km_inv_def km_registered_def Unlock_spec(2) split: prod.splits)
next
  case (8 s k) then show ?case
    by (auto simp: km_inv_def km_registered_def Unlock_spec(3) split: prod.splits)
next
  case (9 s k) then show ?case
    using Clean_held [of L ct s "fst k" "snd k"] by (auto split: prod.splits)
next
  case (10 s k' k b) then show ?case
    using Lock_registered [of L ct s "fst k'" "fst k" "snd k" b]
    by (auto simp: km_registered_def split: prod.splits)
next
  case (11 s k' k b) then show ?case
    by (auto simp: km_registered_def Unlock_reglock split: prod.splits)
next
  case (12 s k' k) then show ?case
    by (auto simp: km_registered_def Clean_registered split: prod.splits)
qed

subsection \<open>Properties\<close>

text \<open>
  C25: \<open>Lock\<close> and \<open>Unlock\<close> refine taking and releasing a lock in the abstract table, on every branch of a
  well-formed mutex. An unregistered namespace is an error and changes nothing. Otherwise \<open>Lock\<close> returns nil
  exactly when the lock is free and the timer's case is not chosen, and marks exactly this lock as held; else
  it returns the timeout and the table stays. \<open>Unlock\<close> frees exactly this lock unless its timer's case is chosen; it returns nil
  also when no channel was ever made for the lock, and the timeout when the lock has a channel but is not held.
\<close>

theorem Lock_refines:
  assumes "lru_laws L ct" and "km_wf ct k"
  shows "fst (Lock L namespace key fired k) =
       (if reglock k namespace = None then Some ns_notfound
        else if fired \<or> held k (lock_name namespace key) then Some (''take lock timeout : '' @ at_name namespace key)
        else None) \<and>
     held (snd (Lock L namespace key fired k)) =
       (if reglock k namespace = None \<or> fired then held k else (held k)(lock_name namespace key := True)) \<and>
     km_wf ct (snd (Lock L namespace key fired k)) \<and>
     fst (Unlock L namespace key fired k) =
       (if reglock k namespace = None then Some ns_notfound
        else if reglock k (lock_name namespace key) = None \<or> held k (lock_name namespace key) \<and> \<not> fired then None
        else Some (''release lock timeout : '' @ at_name namespace key)) \<and>
     held (snd (Unlock L namespace key fired k)) =
       (if reglock k namespace = None \<or> fired then held k else (held k)(lock_name namespace key := False)) \<and>
     km_wf ct (snd (Unlock L namespace key fired k)) \<and>
     (reglock k namespace = None \<longrightarrow>
        snd (Lock L namespace key fired k) = k \<and> snd (Unlock L namespace key fired k) = k)"
proof (cases "reglock k namespace = None")
  case True
  then show ?thesis using assms by (simp add: Lock_unregistered Unlock_unregistered)
next
  case False
  note S = Lock_spec [OF assms False] and U = Unlock_spec [OF assms False] and R = Unlock_result [OF assms False]
  have "held (snd (Lock L namespace key fired k)) =
      (if fired then held k else (held k)(lock_name namespace key := True))"
    using S(2,3) by (auto simp: fun_eq_iff)
  moreover have "held (snd (Unlock L namespace key fired k)) =
      (if fired then held k else (held k)(lock_name namespace key := False))"
    using U(2) R(2) by (cases fired) simp_all
  moreover obtain v where "reglock k namespace = Some v" using False by blast
  ultimately show ?thesis by (simp add: Lock_result [OF assms] S(1) U(1) R(1))
qed

theorem Lock_refines_witness:
  "fst (Lock fifo_lru ''/p'' ''peer'' False (Regist ''/p'' (NewKeyMutex fifo_lru 45))) = None"
proof -
  let ?k = "Regist ''/p'' (NewKeyMutex fifo_lru 45)"
  have wf: "km_wf (\<lambda>c. map_of (snd c)) (NewKeyMutex fifo_lru 45)"
    by (rule km_wf_New [OF fifo_lru_laws])
  have "km_wf (\<lambda>c. map_of (snd c)) ?k" by (rule km_wf_Regist [OF wf]) simp
  moreover have "reglock ?k ''/p'' \<noteq> None" by (simp add: Regist_def make_chan_def)
  ultimately show ?thesis
    using Lock_refines [OF fifo_lru_laws, of ?k "''/p''" "''peer''" False] by (simp add: held_Regist [OF wf])
qed

text \<open>
  The name of a lock is computed from namespace and key written without a separator, so two
  different pairs with the same concatenation are one lock: while the first is held, taking the
  second fails.
\<close>

theorem Lock_alias_blocks:
  assumes "lru_laws L ct" and "km_wf ct k"
    and "reglock k ns1 \<noteq> None" and "reglock k ns2 \<noteq> None" and "length ns1 \<noteq> 40" and "length ns2 \<noteq> 40"
    and "ns1 @ key1 = ns2 @ key2"
    and "fst (Lock L ns1 key1 fired k) = None"
  shows "fst (Lock L ns2 key2 fired' (snd (Lock L ns1 key1 fired k))) \<noteq> None"
proof -
  have "lock_name ns1 key1 = lock_name ns2 key2" using assms(7) by (simp add: lock_name_def)
  then show ?thesis
    using km.no_reentry [of L ct k "(ns1, key1)" fired "(ns2, key2)" fired'] assms
    by (simp add: km_inv_def km_registered_def)
qed

theorem Lock_alias_blocks_witness:
  "let k = Regist ''/ab'' (Regist ''/a'' (NewKeyMutex fifo_lru 45))
   in fst (Lock fifo_lru ''/ab'' ''c'' False (snd (Lock fifo_lru ''/a'' ''bc'' False k))) \<noteq> None"
proof -
  let ?new = "NewKeyMutex fifo_lru 45" and ?ct = "\<lambda>c. map_of (snd c)"
  let ?one = "Regist ''/a'' ?new"
  let ?k = "Regist ''/ab'' ?one"
  have wf0: "km_wf ?ct ?new" by (rule km_wf_New [OF fifo_lru_laws])
  have wf1: "km_wf ?ct ?one" by (simp add: km_wf_Regist wf0)
  have wf: "km_wf ?ct ?k" by (simp add: km_wf_Regist wf1)
  have reg: "reglock ?k ''/a'' \<noteq> None" "reglock ?k ''/ab'' \<noteq> None"
    by (simp_all add: Regist_def make_chan_def)
  have free: "\<not> held ?k h" for h by (simp add: held_Regist [OF wf1] held_Regist [OF wf0])
  have "fst (Lock fifo_lru ''/a'' ''bc'' False ?k) = None"
    by (simp add: Lock_spec(2) [OF fifo_lru_laws wf reg(1)] free)
  then show ?thesis
    using Lock_alias_blocks [OF fifo_lru_laws wf reg, where ?key1.0 = "''bc''" and ?key2.0 = "''c''"]
    by (simp add: Let_def)
qed

end
