(* ===== verification/KeyMutexSys.thy ===== *)
theory KeyMutexSys
  imports KeyLock
begin

text \<open>
  Goroutines that call \<open>KeyMutex.Lock\<close>, work, and call \<open>KeyMutex.Unlock\<close>, interleaved at the
  operations that other goroutines can observe: the accesses to the \<open>sync.Map\<close>, the two \<open>select\<close>
  statements, and \<open>Clean\<close>. Mutual exclusion holds in every reachable state of the system without
  \<open>Clean\<close>; with \<open>Clean\<close> (which the error paths of the service call while they hold the lock) two
  goroutines can hold the same lock.
\<close>

subsection \<open>The system\<close>

datatype pc = Out | Waiting nat | Inside nat | Releasing nat

record 'c lock_sys =
  mux :: "'c KeyMutex"
  pcs :: "nat \<Rightarrow> pc"

text \<open>
  \<open>tg t\<close> is the namespace and key goroutine \<open>t\<close> uses, \<open>cl\<close> says whether \<open>Clean\<close> is called at all.
  The timer's case of a \<open>select\<close> may always be chosen. \<open>Clean\<close> is one step: its callers hold the
  stream cache's write lock.
\<close>

inductive lock_step :: "'c lru \<Rightarrow> (nat \<Rightarrow> string \<times> string) \<Rightarrow> bool \<Rightarrow> 'c lock_sys \<Rightarrow> 'c lock_sys \<Rightarrow> bool"
  for L tg cl where
  lock_call: "pcs s t = Out \<Longrightarrow> Lock_start L (fst (tg t)) (snd (tg t)) (mux s) = (Inr r, k) \<Longrightarrow>
     lock_step L tg cl s (s\<lparr>mux := k, pcs := (pcs s)(t := Waiting r)\<rparr>)"
| lock_refused: "pcs s t = Out \<Longrightarrow> Lock_start L (fst (tg t)) (snd (tg t)) (mux s) = (Inl e, k) \<Longrightarrow>
     lock_step L tg cl s (s\<lparr>mux := k\<rparr>)"
| lock_take: "pcs s t = Waiting r \<Longrightarrow> chan_send r (mux s) = Some (Return k) \<Longrightarrow>
     lock_step L tg cl s (s\<lparr>mux := k, pcs := (pcs s)(t := Inside r)\<rparr>)"
| lock_lost: "pcs s t = Waiting r \<Longrightarrow> chan_send r (mux s) = Some (Panic p) \<Longrightarrow>
     lock_step L tg cl s (s\<lparr>pcs := (pcs s)(t := Out)\<rparr>)"
| lock_timeout: "pcs s t = Waiting r \<Longrightarrow> lock_step L tg cl s (s\<lparr>pcs := (pcs s)(t := Out)\<rparr>)"
| unlock_call: "pcs s t = Inside r \<Longrightarrow> Unlock_start L (fst (tg t)) (snd (tg t)) (mux s) = (Inr r', k) \<Longrightarrow>
     lock_step L tg cl s (s\<lparr>mux := k, pcs := (pcs s)(t := Releasing r')\<rparr>)"
| unlock_none: "pcs s t = Inside r \<Longrightarrow> Unlock_start L (fst (tg t)) (snd (tg t)) (mux s) = (Inl e, k) \<Longrightarrow>
     lock_step L tg cl s (s\<lparr>mux := k, pcs := (pcs s)(t := Out)\<rparr>)"
| unlock_recv: "pcs s t = Releasing r \<Longrightarrow> chan_recv r (mux s) = Some k \<Longrightarrow>
     lock_step L tg cl s (s\<lparr>mux := k, pcs := (pcs s)(t := Out)\<rparr>)"
| unlock_timeout: "pcs s t = Releasing r \<Longrightarrow> lock_step L tg cl s (s\<lparr>pcs := (pcs s)(t := Out)\<rparr>)"
| regist: "length namespace \<noteq> 40 \<Longrightarrow>
     lock_step L tg cl s (s\<lparr>mux := Regist namespace (mux s)\<rparr>)"
| clean: "cl \<Longrightarrow> lock_step L tg cl s (s\<lparr>mux := Clean L namespace key (mux s)\<rparr>)"

definition lock_init :: "'c lru \<Rightarrow> ('c \<Rightarrow> string \<rightharpoonup> string) \<Rightarrow> int \<Rightarrow> 'c lock_sys \<Rightarrow> bool" where
  "lock_init L ct timeout s \<longleftrightarrow> lru_laws L ct \<and> mux s = NewKeyMutex L timeout \<and> pcs s = (\<lambda>_. Out)"

subsection \<open>The invariant\<close>

fun chan_of :: "pc \<Rightarrow> nat option" where
  "chan_of Out = None"
| "chan_of (Waiting r) = Some r"
| "chan_of (Inside r) = Some r"
| "chan_of (Releasing r) = Some r"

fun token_of :: "pc \<Rightarrow> nat option" where
  "token_of Out = None"
| "token_of (Waiting r) = None"
| "token_of (Inside r) = Some r"
| "token_of (Releasing r) = Some r"

definition tg_name :: "(nat \<Rightarrow> string \<times> string) \<Rightarrow> nat \<Rightarrow> string" where
  "tg_name tg t = lock_name (fst (tg t)) (snd (tg t))"

text \<open>
  A goroutine between its call of \<open>Lock\<close> and the end of \<open>Unlock\<close> refers to the current channel of its
  lock; a goroutine that got the lock owns the channel's only token.
\<close>

definition lock_inv ::
  "'c lru \<Rightarrow> ('c \<Rightarrow> string \<rightharpoonup> string) \<Rightarrow> (nat \<Rightarrow> string \<times> string) \<Rightarrow> 'c lock_sys \<Rightarrow> bool" where
  "lock_inv L ct tg s \<longleftrightarrow>
     lru_laws L ct \<and> km_wf ct (mux s) \<and>
     (\<forall>t r. chan_of (pcs s t) = Some r \<longrightarrow> reglock (mux s) (tg_name tg t) = Some r) \<and>
     (\<forall>t r. token_of (pcs s t) = Some r \<longrightarrow> 0 < buf (chans (mux s) r)) \<and>
     (\<forall>t u r. token_of (pcs s t) = Some r \<longrightarrow> token_of (pcs s u) = Some r \<longrightarrow> t = u)"

lemma length_tg_name [simp]: "length (tg_name tg t) = 40"
  by (simp add: tg_name_def)

lemma token_chan: "token_of p = Some r \<Longrightarrow> chan_of p = Some r"
  by (cases p) auto

lemma lock_invD:
  assumes "lock_inv L ct tg s"
  shows "lru_laws L ct" and "km_wf ct (mux s)"
    and "chan_of (pcs s t) = Some r \<Longrightarrow> reglock (mux s) (tg_name tg t) = Some r"
    and "token_of (pcs s t) = Some r \<Longrightarrow> 0 < buf (chans (mux s) r)"
    and "token_of (pcs s t) = Some r \<Longrightarrow> token_of (pcs s u) = Some r \<Longrightarrow> t = u"
  using assms by (auto simp: lock_inv_def)

text \<open>
  The steps change the invariant's ingredients in few ways. A goroutine that moves to a point where it
  has no token keeps the invariant as long as its channel is the current one.
\<close>

lemma inv_mux:
  assumes "lock_inv L ct tg s" and "km_wf ct k"
    and "\<And>t r. chan_of (pcs s t) = Some r \<Longrightarrow> reglock k (tg_name tg t) = Some r"
    and "\<And>t r. token_of (pcs s t) = Some r \<Longrightarrow> 0 < buf (chans k r)"
  shows "lock_inv L ct tg (s\<lparr>mux := k\<rparr>)"
  using assms by (simp add: lock_inv_def)

lemma inv_move:
  assumes "lock_inv L ct tg s" and "token_of p = None \<or> token_of p = token_of (pcs s t)"
    and "chan_of p = None \<or> chan_of p = reglock (mux s) (tg_name tg t)"
  shows "lock_inv L ct tg (s\<lparr>pcs := (pcs s)(t := p)\<rparr>)"
proof -
  let ?s = "s\<lparr>pcs := (pcs s)(t := p)\<rparr>"
  note D = lock_invD [OF assms(1)]
  have tok: "token_of (pcs ?s u) = Some r \<Longrightarrow> token_of (pcs s u) = Some r" for u r
    using assms(2) by (auto split: if_splits)
  have ch: "chan_of (pcs ?s u) = Some r \<Longrightarrow> reglock (mux s) (tg_name tg u) = Some r" for u r
    using assms(3) D(3) by (auto split: if_splits)
  show ?thesis
    unfolding lock_inv_def
  proof (intro conjI allI impI)
    fix u r
    show "chan_of (pcs ?s u) = Some r \<Longrightarrow> reglock (mux ?s) (tg_name tg u) = Some r"
      using ch [of u r] by simp
    show "token_of (pcs ?s u) = Some r \<Longrightarrow> 0 < buf (chans (mux ?s) r)"
      using D(4) [OF tok] by simp
    show "token_of (pcs ?s u) = Some r \<Longrightarrow> token_of (pcs ?s v) = Some r \<Longrightarrow> u = v" for v
      by (rule D(5) [OF tok tok])
  qed (simp_all add: D(1,2))
qed

lemma inv_take:
  assumes inv: "lock_inv L ct tg s" and pc: "pcs s t = Waiting r" and send: "chan_send r (mux s) = Some (Return k)"
  shows "lock_inv L ct tg (s\<lparr>mux := k, pcs := (pcs s)(t := Inside r)\<rparr>)"
proof -
  note D = lock_invD [OF inv]
  have r: "reglock (mux s) (tg_name tg t) = Some r" by (rule D(3)) (simp add: pc)
  have cap: "cap (chans (mux s) r) = 1"
    using D(2) r length_tg_name unfolding km_wf_def by blast
  have empty: "buf (chans (mux s) r) = 0"
    and k: "k = (mux s)\<lparr>chans := (chans (mux s))(r := (chans (mux s) r)\<lparr>buf := 1\<rparr>)\<rparr>"
    using send cap by (auto simp: chan_send_def Let_def split: if_splits)
  have none: "token_of (pcs s u) \<noteq> Some r" for u using D(4) [of u r] empty by auto
  have "km_wf ct k" unfolding k by (rule set_buf(1) [OF D(2) r]) simp_all
  then show ?thesis
    using inv none r by (auto simp: lock_inv_def k split: if_splits)
qed

lemma inv_recv:
  assumes inv: "lock_inv L ct tg s" and pc: "pcs s t = Releasing r" and recv: "chan_recv r (mux s) = Some k"
  shows "lock_inv L ct tg (s\<lparr>mux := k, pcs := (pcs s)(t := Out)\<rparr>)"
proof -
  note D = lock_invD [OF inv]
  have tok: "token_of (pcs s t) = Some r" by (simp add: pc)
  have r: "reglock (mux s) (tg_name tg t) = Some r" by (rule D(3)) (simp add: pc)
  have "buf (chans (mux s) r) \<le> 1"
    using D(2) r length_tg_name unfolding km_wf_def by blast
  then have k: "k = (mux s)\<lparr>chans := (chans (mux s))(r := (chans (mux s) r)\<lparr>buf := 0\<rparr>)\<rparr>"
    using recv D(4) [OF tok] by (auto simp: chan_recv_def Let_def split: if_splits)
  have others: "u \<noteq> t \<Longrightarrow> token_of (pcs s u) \<noteq> Some r" for u using D(5) [OF tok] by blast
  have "km_wf ct k" unfolding k by (rule set_buf(1) [OF D(2) r]) simp_all
  then show ?thesis
    using inv others by (auto simp: lock_inv_def k split: if_splits)
qed

lemma Lock_start_inv:
  assumes inv: "lock_inv L ct tg s" and start: "Lock_start L (fst (tg t)) (snd (tg t)) (mux s) = (Inr r, k)"
  shows "lock_inv L ct tg (s\<lparr>mux := k\<rparr>)" and "reglock k (tg_name tg t) = Some r"
proof -
  note D = lock_invD [OF inv]
  have reg: "reglock (mux s) (fst (tg t)) \<noteq> None"
    using start by (auto simp: Lock_start_def split: option.splits)
  obtain wf: "km_wf ct k" and rl: "reglock k = (reglock (mux s))(tg_name tg t \<mapsto> r)"
    and ch: "\<And>q. q < nchans (mux s) \<Longrightarrow> chans k q = chans (mux s) q"
    and old: "\<And>q. reglock (mux s) (tg_name tg t) = Some q \<Longrightarrow> r = q"
    using Lock_start_spec [OF D(1,2) reg, of "snd (tg t)"] start unfolding tg_name_def by auto
  show "reglock k (tg_name tg t) = Some r" by (simp add: rl)
  show "lock_inv L ct tg (s\<lparr>mux := k\<rparr>)"
  proof (rule inv_mux [OF inv wf])
    fix u q assume "chan_of (pcs s u) = Some q"
    then have q: "reglock (mux s) (tg_name tg u) = Some q" by (rule D(3))
    then show "reglock k (tg_name tg u) = Some q" using old rl by auto
  next
    fix u q assume q: "token_of (pcs s u) = Some q"
    then have "reglock (mux s) (tg_name tg u) = Some q" using D(3) token_chan by blast
    then have "q < nchans (mux s)" using D(2) by (simp add: km_wf_def)
    then show "0 < buf (chans k q)" using D(4) [OF q] ch by simp
  qed
qed

lemma Unlock_start_inv:
  assumes inv: "lock_inv L ct tg s" and reg: "reglock (mux s) (fst (tg t)) \<noteq> None"
    and start: "Unlock_start L (fst (tg t)) (snd (tg t)) (mux s) = (x, k)"
  shows "lock_inv L ct tg (s\<lparr>mux := k\<rparr>)" and "reglock k = reglock (mux s)"
    and "x = (case reglock (mux s) (tg_name tg t) of None \<Rightarrow> Inl None | Some r \<Rightarrow> Inr r)"
proof -
  note D = lock_invD [OF inv]
  obtain wf: "km_wf ct k" and rl: "reglock k = reglock (mux s)" and ch: "chans k = chans (mux s)"
    and x: "x = (case reglock (mux s) (tg_name tg t) of None \<Rightarrow> Inl None | Some r \<Rightarrow> Inr r)"
    using Unlock_start_spec [OF D(1,2) reg, of "snd (tg t)"] start unfolding tg_name_def by auto
  show "reglock k = reglock (mux s)" and
    "x = (case reglock (mux s) (tg_name tg t) of None \<Rightarrow> Inl None | Some r \<Rightarrow> Inr r)" by fact+
  show "lock_inv L ct tg (s\<lparr>mux := k\<rparr>)"
    by (rule inv_mux [OF inv wf]) (use D(3,4) rl ch in auto)
qed

lemma Regist_inv:
  assumes inv: "lock_inv L ct tg s" and len: "length namespace \<noteq> 40"
  shows "lock_inv L ct tg (s\<lparr>mux := Regist namespace (mux s)\<rparr>)"
proof (rule inv_mux [OF inv])
  note D = lock_invD [OF inv]
  show "km_wf ct (Regist namespace (mux s))" by (rule km_wf_Regist [OF D(2) len])
  have reg: "reglock (Regist namespace (mux s)) (tg_name tg u) = reglock (mux s) (tg_name tg u)" for u
    using len by (auto simp: Regist_def make_chan_def)
  fix u q
  show "chan_of (pcs s u) = Some q \<Longrightarrow> reglock (Regist namespace (mux s)) (tg_name tg u) = Some q"
    using D(3) by (simp add: reg)
  assume q: "token_of (pcs s u) = Some q"
  then have "q < nchans (mux s)" using D(2) D(3) token_chan unfolding km_wf_def by blast
  then show "0 < buf (chans (Regist namespace (mux s)) q)"
    using D(4) [OF q] by (simp add: Regist_def make_chan_def)
qed

lemma lock_step_inv:
  assumes "lock_inv L ct tg s" and "lock_step L tg False s s'"
  shows "lock_inv L ct tg s'"
  using assms(2,1)
proof cases
  case (lock_call t r k)
  then show ?thesis
    using inv_move [OF Lock_start_inv(1), of L ct tg s t r k "Waiting r" t]
      Lock_start_inv(2) [OF assms(1) lock_call(3)] assms(1) by simp
next
  case (lock_refused t e k)
  then have "k = mux s"
    by (auto simp: Lock_start_def split: option.splits prod.splits)
  with lock_refused assms(1) show ?thesis by simp
next
  case (unlock_call t r r' k)
  have r: "reglock (mux s) (tg_name tg t) = Some r"
    by (rule lock_invD(3) [OF assms(1)]) (simp add: unlock_call)
  have reg: "reglock (mux s) (fst (tg t)) \<noteq> None"
    using unlock_call by (auto simp: Unlock_start_def split: option.splits)
  note U = Unlock_start_inv [OF assms(1) reg unlock_call(3)]
  have "r' = r" using U(3) r by simp
  then show ?thesis
    using inv_move [OF U(1), of "Releasing r" t] U(2) r unlock_call by simp
next
  case (unlock_none t r e k)
  have "k = mux s \<or> reglock (mux s) (fst (tg t)) \<noteq> None"
    using unlock_none by (auto simp: Unlock_start_def split: option.splits)
  then have "lock_inv L ct tg (s\<lparr>mux := k\<rparr>)"
    using Unlock_start_inv(1) [OF assms(1) _ unlock_none(3)] assms(1) by auto
  then show ?thesis
    using inv_move [of L ct tg "s\<lparr>mux := k\<rparr>" Out t] unlock_none by simp
qed (auto intro: inv_take inv_recv inv_move Regist_inv)

interpretation lock_sys: safe_system "lock_init L ct timeout" "lock_step L tg False" "lock_inv L ct tg"
  for L ct timeout tg
proof unfold_locales
  fix s :: "'a lock_sys"
  assume "lock_init L ct timeout s"
  then show "lock_inv L ct tg s" by (simp add: lock_init_def lock_inv_def km_wf_New)
qed (rule lock_step_inv)

subsection \<open>Runs\<close>

text \<open>A goroutine between \<open>Lock\<close> and \<open>Unlock\<close> has found its namespace registered; it stays so.\<close>

lemma Lock_start_registered:
  assumes "lock_inv L ct tg s" and "Lock_start L n x (mux s) = (Inr r, k)"
  shows "reglock (mux s) n \<noteq> None" and "reglock (mux s) y \<noteq> None \<Longrightarrow> reglock k y \<noteq> None"
proof -
  show reg: "reglock (mux s) n \<noteq> None" using assms(2) by (auto simp: Lock_start_def split: option.splits)
  obtain r' k' where "Lock_start L n x (mux s) = (Inr r', k')"
    and "reglock k' = (reglock (mux s))(lock_name n x \<mapsto> r')"
    by (rule Lock_start_spec [OF lock_invD(1,2) [OF assms(1)] reg, of x])
  with assms(2) have "reglock k = (reglock (mux s))(lock_name n x \<mapsto> r)" by simp
  then show "reglock (mux s) y \<noteq> None \<Longrightarrow> reglock k y \<noteq> None" by simp
qed

lemma inside_registered:
  assumes "reach (lock_init L ct timeout) (lock_step L tg False) s"
  shows "chan_of (pcs s t) \<noteq> None \<Longrightarrow> reglock (mux s) (fst (tg t)) \<noteq> None"
  using assms
proof (induction arbitrary: t rule: reach.induct)
  case (reach_init s)
  then show ?case by (simp add: lock_init_def)
next
  case (reach_step s s1)
  have inv: "lock_inv L ct tg s" by (rule lock_sys.reach_inv [OF reach_step.hyps(1)])
  have same: "reglock (mux s) (fst (tg u)) \<noteq> None" if "chan_of (pcs s u) \<noteq> None" for u
    using reach_step.IH that by blast
  show ?case
    using reach_step.hyps(2) reach_step.prems
  proof (cases rule: lock_step.cases)
    case (lock_call u r k)
    then show ?thesis
      using Lock_start_registered [OF inv lock_call(3)] same [of t] reach_step.prems by (auto split: if_splits)
  next
    case (unlock_call u r r' k)
    then have "reglock k = reglock (mux s)"
      using Unlock_start_inv(2) [OF inv same [of u] unlock_call(3)] by simp
    then show ?thesis using unlock_call same [of t] same [of u] reach_step.prems by (auto split: if_splits)
  next
    case (unlock_none u r e k)
    then have "reglock k = reglock (mux s)"
      using Unlock_start_inv(2) [OF inv same [of u] unlock_none(3)] by simp
    then show ?thesis using unlock_none same [of t] reach_step.prems by (auto split: if_splits)
  next
    case (lock_refused u e k)
    then show ?thesis
      using same [of t] reach_step.prems by (auto simp: Lock_start_def Let_def split: option.splits prod.splits)
  qed (use same [of t] in \<open>auto simp: chan_send_def chan_recv_def Regist_def make_chan_def Let_def split: if_splits\<close>)
qed

text \<open>
  Runs of one goroutine taking and releasing its lock while it is free: building blocks for concrete
  executions, with or without \<open>Clean\<close>.
\<close>

lemma lock_steps:
  assumes out: "pcs s t = Out" and laws: "lru_laws L ct" and wf: "km_wf ct (mux s)"
    and reg: "reglock (mux s) (fst (tg t)) \<noteq> None" and free: "\<not> held (mux s) (tg_name tg t)"
  obtains k0 k r where
    "lock_step L tg cl s (s\<lparr>mux := k0, pcs := (pcs s)(t := Waiting r)\<rparr>)"
    and "lock_step L tg cl (s\<lparr>mux := k0, pcs := (pcs s)(t := Waiting r)\<rparr>)
      (s\<lparr>mux := k, pcs := (pcs s)(t := Inside r)\<rparr>)"
    and "km_wf ct k" and "held k (tg_name tg t)"
    and "reglock k = (reglock (mux s))(tg_name tg t \<mapsto> r)"
    and "\<forall>q. reglock (mux s) (tg_name tg t) = Some q \<longrightarrow> r = q"
proof -
  obtain r k where start: "Lock_start L (fst (tg t)) (snd (tg t)) (mux s) = (Inr r, k)"
    and k: "km_wf ct k" "reglock k = (reglock (mux s))(tg_name tg t \<mapsto> r)" "held k = held (mux s)"
    and old: "\<And>q. reglock (mux s) (tg_name tg t) = Some q \<Longrightarrow> r = q"
    by (rule Lock_start_spec [OF laws wf reg, of "snd (tg t)", folded tg_name_def]) (rule that)
  have r: "reglock k (tg_name tg t) = Some r" by (simp add: k)
  let ?k = "k\<lparr>chans := (chans k)(r := (chans k r)\<lparr>buf := 1\<rparr>)\<rparr>"
  have send: "chan_send r k = Some (Return ?k)"
    using chan_send_lock [OF k(1) r] free k(3) by simp
  let ?s = "s\<lparr>mux := k, pcs := (pcs s)(t := Waiting r)\<rparr>"
  have "lock_step L tg cl ?s (?s\<lparr>mux := ?k, pcs := (pcs ?s)(t := Inside r)\<rparr>)"
    by (rule lock_take) (simp_all add: send)
  then have st: "lock_step L tg cl ?s (s\<lparr>mux := ?k, pcs := (pcs s)(t := Inside r)\<rparr>)" by simp
  have call: "lock_step L tg cl s ?s" using out start by (rule lock_call)
  show ?thesis
    by (rule that [OF call st]) (use set_buf [OF k(1) r, of 1] k(2) old in auto)
qed

lemma unlock_run:
  assumes ins: "pcs s t = Inside q" and laws: "lru_laws L ct" and wf: "km_wf ct (mux s)"
    and reg: "reglock (mux s) (fst (tg t)) \<noteq> None"
    and r: "reglock (mux s) (tg_name tg t) = Some r" and locked: "held (mux s) (tg_name tg t)"
  obtains k k' where
    "Unlock_start L (fst (tg t)) (snd (tg t)) (mux s) = (Inr r, k)" and "chan_recv r k = Some k'"
    and "lock_step L tg cl s (s\<lparr>mux := k, pcs := (pcs s)(t := Releasing r)\<rparr>)"
    and "lock_step L tg cl (s\<lparr>mux := k, pcs := (pcs s)(t := Releasing r)\<rparr>)
      (s\<lparr>mux := k', pcs := (pcs s)(t := Out)\<rparr>)"
    and "km_wf ct k'" and "\<not> held k' (tg_name tg t)" and "reglock k' = reglock (mux s)"
proof -
  obtain k where k: "km_wf ct k" "reglock k = reglock (mux s)" "held k = held (mux s)"
    and start: "Unlock_start L (fst (tg t)) (snd (tg t)) (mux s) = (Inr r, k)"
    using Unlock_start_spec [OF laws wf reg, of "snd (tg t)"] r unfolding tg_name_def by auto
  have r': "reglock k (tg_name tg t) = Some r" by (simp add: k r)
  let ?k = "k\<lparr>chans := (chans k)(r := (chans k r)\<lparr>buf := 0\<rparr>)\<rparr>"
  have recv: "chan_recv r k = Some ?k"
    using chan_recv_lock [OF k(1) r'] locked k(3) by simp
  let ?s = "s\<lparr>mux := k, pcs := (pcs s)(t := Releasing r)\<rparr>"
  have "lock_step L tg cl ?s (?s\<lparr>mux := ?k, pcs := (pcs ?s)(t := Out)\<rparr>)"
  proof (rule unlock_recv)
    show "pcs ?s t = Releasing r" by simp
    show "chan_recv r (mux ?s) = Some ?k" using recv by simp
  qed
  then have st: "lock_step L tg cl ?s (s\<lparr>mux := ?k, pcs := (pcs s)(t := Out)\<rparr>)" by simp
  have call: "lock_step L tg cl s ?s" using ins start by (rule unlock_call)
  show ?thesis
    by (rule that [OF start recv call st]) (use set_buf [OF k(1) r', of 0] k(2) in auto)
qed

lemma unlock_steps:
  assumes ins: "pcs s t = Inside q" and laws: "lru_laws L ct" and wf: "km_wf ct (mux s)"
    and reg: "reglock (mux s) (fst (tg t)) \<noteq> None" and locked: "held (mux s) (tg_name tg t)"
  obtains k0 k r where
    "lock_step L tg cl s (s\<lparr>mux := k0, pcs := (pcs s)(t := Releasing r)\<rparr>)"
    and "lock_step L tg cl (s\<lparr>mux := k0, pcs := (pcs s)(t := Releasing r)\<rparr>)
      (s\<lparr>mux := k, pcs := (pcs s)(t := Out)\<rparr>)"
    and "km_wf ct k" and "\<not> held k (tg_name tg t)" and "reglock k = reglock (mux s)"
proof -
  obtain r where r: "reglock (mux s) (tg_name tg t) = Some r"
    using locked by (auto simp: held_def split: option.splits)
  show ?thesis by (rule unlock_run [OF ins laws wf reg r locked]) (rule that)
qed

lemma run_lock:
  assumes reach: "reach I (lock_step L tg cl) s" and out: "pcs s t = Out"
    and laws: "lru_laws L ct" and wf: "km_wf ct (mux s)"
    and reg: "reglock (mux s) (fst (tg t)) \<noteq> None" and free: "\<not> held (mux s) (tg_name tg t)"
  obtains k r where "reach I (lock_step L tg cl) (s\<lparr>mux := k, pcs := (pcs s)(t := Inside r)\<rparr>)"
    and "km_wf ct k" and "held k (tg_name tg t)"
    and "reglock k = (reglock (mux s))(tg_name tg t \<mapsto> r)"
    and "\<forall>q. reglock (mux s) (tg_name tg t) = Some q \<longrightarrow> r = q"
  by (rule lock_steps [OF out laws wf reg free]) (rule that [OF reach_step [OF reach_step [OF reach]]])

lemma run_unlock:
  assumes reach: "reach I (lock_step L tg cl) s" and ins: "pcs s t = Inside q"
    and laws: "lru_laws L ct" and wf: "km_wf ct (mux s)"
    and reg: "reglock (mux s) (fst (tg t)) \<noteq> None" and locked: "held (mux s) (tg_name tg t)"
  obtains k where "reach I (lock_step L tg cl) (s\<lparr>mux := k, pcs := (pcs s)(t := Out)\<rparr>)"
    and "km_wf ct k" and "\<not> held k (tg_name tg t)" and "reglock k = reglock (mux s)"
  by (rule unlock_steps [OF ins laws wf reg locked]) (rule that [OF reach_step [OF reach_step [OF reach]]])

lemma run_start:
  assumes laws: "lru_laws L ct" and len: "length namespace \<noteq> 40"
    and s_def: "s = \<lparr>mux = Regist namespace (NewKeyMutex L timeout), pcs = (\<lambda>_. Out)\<rparr>"
  shows "reach (lock_init L ct timeout) (lock_step L tg cl) s"
    and "km_wf ct (mux s)" and "reglock (mux s) namespace \<noteq> None" and "\<not> held (mux s) h"
proof -
  let ?s = "\<lparr>mux = NewKeyMutex L timeout, pcs = (\<lambda>_. Out)\<rparr>"
  have "reach (lock_init L ct timeout) (lock_step L tg cl) ?s"
    by (rule reach_init) (simp add: lock_init_def laws)
  from reach_step [OF this regist [OF len]]
  show "reach (lock_init L ct timeout) (lock_step L tg cl) s" by (simp add: s_def)
  have wf: "km_wf ct (NewKeyMutex L timeout)" by (rule km_wf_New [OF laws])
  show "km_wf ct (mux s)" by (simp add: s_def km_wf_Regist [OF wf len])
  show "reglock (mux s) namespace \<noteq> None" by (simp add: s_def Regist_def make_chan_def)
  show "\<not> held (mux s) h" by (simp add: s_def held_Regist [OF wf])
qed

lemma run_one_inside:
  "\<exists>s r. reach (lock_init fifo_lru (\<lambda>c. map_of (snd c)) 45) (lock_step fifo_lru (\<lambda>_. (''/p'', ''x'')) cl) s \<and>
     km_wf (\<lambda>c. map_of (snd c)) (mux s) \<and> pcs s = (\<lambda>_. Out)(0 := Inside r) \<and>
     reglock (mux s) ''/p'' \<noteq> None \<and> reglock (mux s) (lock_name ''/p'' ''x'') = Some r \<and>
     held (mux s) (lock_name ''/p'' ''x'')"
proof -
  let ?tg = "\<lambda>_ :: nat. (''/p'', ''x'')" and ?ct = "\<lambda>c. map_of (snd c)"
  let ?s = "\<lparr>mux = Regist ''/p'' (NewKeyMutex fifo_lru 45), pcs = (\<lambda>_. Out)\<rparr>"
  have len: "length ''/p'' \<noteq> 40" by simp
  have S: "?s = ?s" by simp
  note S = run_start [OF fifo_lru_laws len S]
  have ne: "''/p'' \<noteq> lock_name ''/p'' ''x''"
    using length_lock_name [of "''/p''" "''x''"] by (metis len)
  have idle: "pcs ?s 0 = Out" by simp
  have reg: "reglock (mux ?s) (fst (?tg 0)) \<noteq> None" using S(3) by simp
  obtain k r where R: "reach (lock_init fifo_lru ?ct 45) (lock_step fifo_lru ?tg cl)
      (?s\<lparr>mux := k, pcs := (pcs ?s)(0 := Inside r)\<rparr>)"
    and k: "km_wf ?ct k" "held k (tg_name ?tg 0)" "reglock k = (reglock (mux ?s))(tg_name ?tg 0 \<mapsto> r)"
    by (rule run_lock [OF S(1) idle fifo_lru_laws S(2) reg S(4)])
  show ?thesis
    by (intro exI [of _ "?s\<lparr>mux := k, pcs := (pcs ?s)(0 := Inside r)\<rparr>"] exI [of _ r])
      (use R k S(3) ne in \<open>simp add: tg_name_def\<close>)
qed

subsection \<open>Properties\<close>

text \<open>
  C12: mutual exclusion. In every state that goroutines reach through \<open>Lock\<close> and \<open>Unlock\<close>, with any
  interleaving and any number of timeouts, at most one of them is between a successful \<open>Lock\<close> and
  its \<open>Unlock\<close> for one lock, as long as \<open>Clean\<close> is not called.
\<close>

theorem lock_mutual_exclusion:
  assumes "reach (lock_init L ct timeout) (lock_step L tg False) s"
    and "pcs s t = Inside r" and "pcs s u = Inside q" and "tg_name tg t = tg_name tg u"
  shows "t = u"
proof -
  have inv: "lock_inv L ct tg s" by (rule lock_sys.reach_inv [OF assms(1)])
  have "reglock (mux s) (tg_name tg t) = Some r" "reglock (mux s) (tg_name tg u) = Some q"
    using lock_invD(3) [OF inv] assms(2,3) by simp_all
  then have "r = q" using assms(4) by simp
  then show ?thesis using lock_invD(5) [OF inv, of t r u] assms(2,3) by simp
qed

theorem lock_mutual_exclusion_witness:
  "\<exists>s r. reach (lock_init fifo_lru (\<lambda>c. map_of (snd c)) 45) (lock_step fifo_lru (\<lambda>_. (''/p'', ''x'')) False) s \<and>
     pcs s 0 = Inside r \<and> (\<forall>u q. pcs s u = Inside q \<longrightarrow> (0 :: nat) = u)"
proof -
  obtain s r where "reach (lock_init fifo_lru (\<lambda>c. map_of (snd c)) 45)
      (lock_step fifo_lru (\<lambda>_. (''/p'', ''x'')) False) s" and "pcs s = (\<lambda>_. Out)(0 := Inside r)"
    using run_one_inside [of False] by blast
  moreover from this have "pcs s 0 = Inside r" by simp
  ultimately show ?thesis
    using lock_mutual_exclusion [where t = 0] by (metis (no_types, lifting) tg_name_def)
qed

text \<open>
  C27: a holder can always release. In every reachable state without \<open>Clean\<close> a goroutine that is inside the
  lock has a run of its own to the outside: \<open>Unlock\<close> finds the very channel that the goroutine locked, and the
  token is in that channel, so that its receive is ready there and when other goroutines have moved in between.
\<close>

theorem unlock_never_blocks:
  assumes "reach (lock_init L ct timeout) (lock_step L tg False) s"
  shows "(pcs s t = Inside r \<longrightarrow> (\<exists>k k'.
       Unlock_start L (fst (tg t)) (snd (tg t)) (mux s) = (Inr r, k) \<and> chan_recv r k = Some k' \<and>
       lock_step L tg False s (s\<lparr>mux := k, pcs := (pcs s)(t := Releasing r)\<rparr>) \<and>
       lock_step L tg False (s\<lparr>mux := k, pcs := (pcs s)(t := Releasing r)\<rparr>) (s\<lparr>mux := k', pcs := (pcs s)(t := Out)\<rparr>) \<and>
       \<not> held k' (tg_name tg t))) \<and>
    (pcs s t = Releasing r \<longrightarrow> (\<exists>k. chan_recv r (mux s) = Some k))"
proof -
  note inv = lock_sys.reach_inv [OF assms]
  have "\<exists>k. chan_recv r (mux s) = Some k" if "pcs s t = Releasing r"
    using lock_invD(4) [OF inv, of t r] that by (simp add: chan_recv_def Let_def)
  moreover have "\<exists>k k'. Unlock_start L (fst (tg t)) (snd (tg t)) (mux s) = (Inr r, k) \<and> chan_recv r k = Some k' \<and>
       lock_step L tg False s (s\<lparr>mux := k, pcs := (pcs s)(t := Releasing r)\<rparr>) \<and>
       lock_step L tg False (s\<lparr>mux := k, pcs := (pcs s)(t := Releasing r)\<rparr>) (s\<lparr>mux := k', pcs := (pcs s)(t := Out)\<rparr>) \<and>
       \<not> held k' (tg_name tg t)" if ins: "pcs s t = Inside r"
  proof -
    have n: "reglock (mux s) (tg_name tg t) = Some r" using lock_invD(3) [OF inv, of t r] ins by simp
    have full: "held (mux s) (tg_name tg t)" using lock_invD(4) [OF inv, of t r] ins n by (simp add: held_def)
    have reg: "reglock (mux s) (fst (tg t)) \<noteq> None" using inside_registered [OF assms] ins by simp
    show ?thesis by (rule unlock_run [OF ins lock_invD(1,2) [OF inv] reg n full]) blast
  qed
  ultimately show ?thesis by blast
qed

theorem unlock_never_blocks_witness:
  "\<exists>s r k k'. reach (lock_init fifo_lru (\<lambda>c. map_of (snd c)) 45) (lock_step fifo_lru (\<lambda>_. (''/p'', ''x'')) False) s \<and>
     pcs s (0 :: nat) = Inside r \<and> Unlock_start fifo_lru ''/p'' ''x'' (mux s) = (Inr r, k) \<and> chan_recv r k = Some k'"
proof -
  obtain s r where "reach (lock_init fifo_lru (\<lambda>c. map_of (snd c)) 45) (lock_step fifo_lru (\<lambda>_. (''/p'', ''x'')) False) s"
    and "pcs s = (\<lambda>_. Out)(0 := Inside r)"
    using run_one_inside [of False] by blast
  then show ?thesis
    using unlock_never_blocks [of fifo_lru "\<lambda>c. map_of (snd c)" 45 "\<lambda>_. (''/p'', ''x'')" s 0 r]
    by (intro exI [of _ s] exI [of _ r]) auto
qed

text \<open>
  \<open>Clean\<close> breaks the exclusion, also for later users of the new lock. A goroutine that holds the
  lock while it is cleaned releases, in its \<open>Unlock\<close>, the token of whoever holds the replacement: a
  state is reachable in which two goroutines are inside on the same, current channel. The error
  paths of \<open>SendMsgAfterClose\<close> and \<open>RequestWithTimeout\<close> clean while they hold the lock.
\<close>

theorem clean_breaks_exclusion:
  "\<exists>s r. reach (lock_init fifo_lru (\<lambda>c. map_of (snd c)) 45) (lock_step fifo_lru (\<lambda>_. (''/p'', ''x'')) True) s \<and>
     pcs s 1 = Inside r \<and> pcs s 2 = Inside r \<and> reglock (mux s) (lock_name ''/p'' ''x'') = Some r"
proof -
  let ?tg = "\<lambda>_ :: nat. (''/p'', ''x'')" and ?ct = "\<lambda>c. map_of (snd c)" and ?n = "lock_name ''/p'' ''x''"
  let ?R = "reach (lock_init fifo_lru ?ct 45) (lock_step fifo_lru ?tg True)"
  note laws = fifo_lru_laws
  have ne: "''/p'' \<noteq> ?n"
  proof
    assume "''/p'' = ?n"
    then have "length ''/p'' = 40" using length_lock_name by metis
    then show False by simp
  qed
  have name: "tg_name ?tg t = ?n" for t by (simp add: tg_name_def)
  obtain s q where s: "?R s" and wf: "km_wf ?ct (mux s)" and pc: "pcs s = (\<lambda>_. Out)(0 := Inside q)"
    and reg: "reglock (mux s) ''/p'' \<noteq> None"
    using run_one_inside [of True] by blast
  \<comment> \<open>goroutine 0 is inside; the lock is cleaned\<close>
  define ka where "ka = Clean fifo_lru ''/p'' ''x'' (mux s)"
  define sa where "sa = s\<lparr>mux := ka\<rparr>"
  have ra: "?R sa" unfolding sa_def ka_def by (rule reach_step [OF s clean]) simp
  have C: "km_wf ?ct ka" "reglock ka = (reglock (mux s))(?n := None)" "held ka = (held (mux s))(?n := False)"
    unfolding ka_def by (simp_all add: Clean_spec [OF laws wf])
  \<comment> \<open>goroutine 1 takes the replacement\<close>
  have pa: "pcs sa 1 = Out" "km_wf ?ct (mux sa)" "reglock (mux sa) (fst (?tg 1)) \<noteq> None"
      "\<not> held (mux sa) (tg_name ?tg 1)"
    using pc C reg ne by (simp_all add: sa_def name)
  obtain kb r where rb: "?R (sa\<lparr>mux := kb, pcs := (pcs sa)(1 := Inside r)\<rparr>)"
    and B: "km_wf ?ct kb" "held kb (tg_name ?tg 1)" "reglock kb = (reglock (mux sa))(tg_name ?tg 1 \<mapsto> r)"
    by (rule run_lock [OF ra pa(1) laws pa(2-4)])
  define sb where "sb = sa\<lparr>mux := kb, pcs := (pcs sa)(1 := Inside r)\<rparr>"
  \<comment> \<open>goroutine 0 unlocks, which receives the token of goroutine 1\<close>
  have pb: "pcs sb 0 = Inside q" "km_wf ?ct (mux sb)" "reglock (mux sb) (fst (?tg 0)) \<noteq> None"
      "held (mux sb) (tg_name ?tg 0)"
    using pc B reg ne C by (simp_all add: sb_def sa_def name)
  obtain kc where rc: "?R (sb\<lparr>mux := kc, pcs := (pcs sb)(0 := Out)\<rparr>)"
    and D: "km_wf ?ct kc" "\<not> held kc (tg_name ?tg 0)" "reglock kc = reglock (mux sb)"
    by (rule run_unlock [OF rb [folded sb_def] pb(1) laws pb(2-4)])
  define sc where "sc = sb\<lparr>mux := kc, pcs := (pcs sb)(0 := Out)\<rparr>"
  \<comment> \<open>goroutine 2 takes the lock that goroutine 1 still believes to hold\<close>
  have pd: "pcs sc 2 = Out" "km_wf ?ct (mux sc)" "reglock (mux sc) (fst (?tg 2)) \<noteq> None"
      "\<not> held (mux sc) (tg_name ?tg 2)"
    using pc B D reg ne C by (simp_all add: sc_def sb_def sa_def name)
  obtain kd r' where rd: "?R (sc\<lparr>mux := kd, pcs := (pcs sc)(2 := Inside r')\<rparr>)"
    and E: "reglock kd = (reglock (mux sc))(tg_name ?tg 2 \<mapsto> r')"
      "\<forall>x. reglock (mux sc) (tg_name ?tg 2) = Some x \<longrightarrow> r' = x"
    by (rule run_lock [OF rc [folded sc_def] pd(1) laws pd(2-4)])
  have "r' = r" by (rule E(2) [rule_format]) (simp add: sc_def sb_def sa_def D B name)
  with E(1) rd show ?thesis
    by (intro exI [of _ "sc\<lparr>mux := kd, pcs := (pcs sc)(2 := Inside r')\<rparr>"] exI [of _ r])
      (simp add: sc_def sb_def name)
qed

end
