(* ===== verification/AsyncRunner.thy ===== *)
theory AsyncRunner
  imports GoBytes Prelude "HOL-Library.Multiset"
begin

text \<open>
  The worker pool \<open>AsyncRunner\<close> of \<open>funcs.go\<close> as a step relation. Its goroutines are the workers that \<open>spawn\<close>
  starts, the callers inside \<open>Apply\<close> and the goroutine that \<open>NewAsyncRunner\<close> starts. Workers are not told
  apart, so the state counts them per program point; tasks are numbered. The two sections under the
  mutex are split at the atomic operations on the counter, because a worker that sees the context
  end decrements the counter without the mutex.
\<close>

subsection \<open>State\<close>

text \<open>Who holds the mutex: \<open>Apply\<close> after it computed \<open>tn\<close>, or a worker after it loaded the counter.\<close>

datatype holder = Free | ApplyLoaded nat int | GcLoaded int

text \<open>
  \<open>counter\<close>, \<open>rmin\<close>, \<open>rmax\<close> are \<open>int32\<close>. \<open>closes\<close> counts the calls of \<open>close(a.closeCh)\<close>, the second of which
  panics. \<open>idle\<close> workers are parked in \<open>select\<close>, \<open>booting\<close> ones on the way to it, \<open>at_gc\<close> ones wait for
  the mutex after their timer; \<open>running\<close> are the tasks being executed. Callers of \<open>Apply\<close> wait for the
  mutex (\<open>want_lock\<close>) or for a worker to receive (\<open>sending\<close>). \<open>accepted\<close> and \<open>executed\<close> are ghost logs.
\<close>

record AsyncRunner =
  counter :: int
  rmin :: int
  rmax :: int
  closing :: bool
  ctx_done :: bool
  closes :: nat
  wg :: int
  closer :: bool
  mutex :: holder
  idle :: nat
  booting :: nat
  at_gc :: nat
  running :: "nat multiset"
  want_lock :: "nat multiset"
  sending :: "nat multiset"
  accepted :: "nat multiset"
  executed :: "nat multiset"

definition NewAsyncRunner :: "int \<Rightarrow> int \<Rightarrow> AsyncRunner" where
  "NewAsyncRunner mn mx =
     \<lparr>counter = 0, rmin = mn, rmax = mx, closing = False, ctx_done = False, closes = 0, wg = 1, closer = True,
      mutex = Free, idle = 0, booting = 0, at_gc = 0, running = {#}, want_lock = {#}, sending = {#},
      accepted = {#}, executed = {#}\<rparr>"

definition runner_Size :: "AsyncRunner \<Rightarrow> int" where
  "runner_Size a = counter a"

text \<open>\<open>Wait\<close> and \<open>WaitClose\<close> return when the wait group is at zero; \<open>WaitClose\<close> first sets the flag.\<close>

definition Wait_returns :: "AsyncRunner \<Rightarrow> bool" where
  "Wait_returns a \<longleftrightarrow> wg a = 0"

definition WaitClose_start :: "AsyncRunner \<Rightarrow> AsyncRunner" where
  "WaitClose_start a = a\<lparr>closing := True\<rparr>"

text \<open>A worker receives a task from \<open>fnCh\<close> and applies it.\<close>

definition receive :: "nat \<Rightarrow> AsyncRunner \<Rightarrow> AsyncRunner" where
  "receive t a = a\<lparr>idle := idle a - 1, running := add_mset t (running a), executed := add_mset t (executed a)\<rparr>"

text \<open>A worker that leaves: the counter and the wait group go down.\<close>

definition worker_exit :: "AsyncRunner \<Rightarrow> AsyncRunner" where
  "worker_exit a = a\<lparr>counter := i32 (counter a - 1), wg := wg a - 1\<rparr>"

text \<open>\<open>Apply\<close>, first part: a parked worker takes the task, or else the caller goes for the mutex.\<close>

definition Apply_select :: "nat \<Rightarrow> AsyncRunner \<Rightarrow> AsyncRunner" where
  "Apply_select t a =
     (let a1 = a\<lparr>accepted := add_mset t (accepted a)\<rparr> in
      if 0 < idle a then receive t a1 else a1\<lparr>want_lock := add_mset t (want_lock a)\<rparr>)"

text \<open>Second part: with the mutex, load the counter; then, if the bound allows, count and spawn a worker.\<close>

definition Apply_load :: "nat \<Rightarrow> AsyncRunner \<Rightarrow> AsyncRunner" where
  "Apply_load t a = a\<lparr>mutex := ApplyLoaded t (i32 (counter a + 1)), want_lock := want_lock a - {#t#}\<rparr>"

definition spawn :: "AsyncRunner \<Rightarrow> AsyncRunner" where
  "spawn a = a\<lparr>wg := wg a + 1, booting := booting a + 1\<rparr>"

definition Apply_spawn :: "nat \<Rightarrow> int \<Rightarrow> AsyncRunner \<Rightarrow> AsyncRunner" where
  "Apply_spawn t tn a =
     (let a1 = (if tn \<le> rmax a then spawn (a\<lparr>counter := i32 (counter a + 1)\<rparr>) else a)
      in a1\<lparr>mutex := Free, sending := add_mset t (sending a)\<rparr>)"

text \<open>The timer's branch of a worker: with the mutex, load the counter, then leave or go on.\<close>

definition gc_load :: "AsyncRunner \<Rightarrow> AsyncRunner" where
  "gc_load a = a\<lparr>mutex := GcLoaded (counter a), at_gc := at_gc a - 1\<rparr>"

definition gc_decide :: "int \<Rightarrow> AsyncRunner \<Rightarrow> AsyncRunner" where
  "gc_decide c a =
     (if c > rmin a \<or> closing a then
        (let a1 = (worker_exit a)\<lparr>mutex := Free\<rparr>
         in if counter a1 = 0 then a1\<lparr>closes := closes a1 + 1\<rparr> else a1)
      else a\<lparr>mutex := Free, booting := booting a + 1\<rparr>)"

inductive run_step :: "AsyncRunner \<Rightarrow> AsyncRunner \<Rightarrow> bool" where
  run_apply: "run_step a (Apply_select t a)"
| run_load: "t \<in># want_lock a \<Longrightarrow> mutex a = Free \<Longrightarrow> run_step a (Apply_load t a)"
| run_spawn: "mutex a = ApplyLoaded t tn \<Longrightarrow> run_step a (Apply_spawn t tn a)"
| run_send: "t \<in># sending a \<Longrightarrow> 0 < idle a \<Longrightarrow> run_step a (receive t (a\<lparr>sending := sending a - {#t#}\<rparr>))"
| run_park: "0 < booting a \<Longrightarrow> run_step a (a\<lparr>booting := booting a - 1, idle := idle a + 1\<rparr>)"
| run_finish: "t \<in># running a \<Longrightarrow> run_step a (a\<lparr>running := running a - {#t#}, booting := booting a + 1\<rparr>)"
| run_timer: "0 < idle a \<Longrightarrow> run_step a (a\<lparr>idle := idle a - 1, at_gc := at_gc a + 1\<rparr>)"
| run_gc_load: "0 < at_gc a \<Longrightarrow> mutex a = Free \<Longrightarrow> run_step a (gc_load a)"
| run_gc: "mutex a = GcLoaded c \<Longrightarrow> run_step a (gc_decide c a)"
| run_ctx_exit: "ctx_done a \<Longrightarrow> 0 < idle a \<Longrightarrow> run_step a (worker_exit (a\<lparr>idle := idle a - 1\<rparr>))"
| run_cancel: "run_step a (a\<lparr>ctx_done := True\<rparr>)"
| run_WaitClose: "run_step a (WaitClose_start a)"
| run_closer: "closer a \<Longrightarrow> ctx_done a \<or> 0 < closes a \<Longrightarrow> run_step a (a\<lparr>closer := False, wg := wg a - 1\<rparr>)"

subsection \<open>The counter counts the workers\<close>

definition live :: "AsyncRunner \<Rightarrow> nat" where
  "live a = idle a + booting a + at_gc a + size (running a) + (case mutex a of GcLoaded _ \<Rightarrow> 1 | _ \<Rightarrow> 0)"

definition held_task :: "AsyncRunner \<Rightarrow> nat multiset" where
  "held_task a = (case mutex a of ApplyLoaded t _ \<Rightarrow> {#t#} | _ \<Rightarrow> {#})"

definition count_inv :: "AsyncRunner \<Rightarrow> bool" where
  "count_inv a \<longleftrightarrow>
     rmax a < 2 ^ 31 - 1 \<and> counter a = int (live a) \<and> (counter a \<le> 0 \<or> counter a \<le> rmax a) \<and>
     wg a = counter a + (if closer a then 1 else 0) \<and>
     (\<forall>t tn. mutex a = ApplyLoaded t tn \<longrightarrow> counter a + 1 \<le> tn)"

definition task_inv :: "AsyncRunner \<Rightarrow> bool" where
  "task_inv a \<longleftrightarrow> accepted a = executed a + want_lock a + sending a + held_task a \<and> running a \<subseteq># executed a"

definition bounded_start :: "AsyncRunner \<Rightarrow> bool" where
  "bounded_start a \<longleftrightarrow> (\<exists>mn mx. mx < 2 ^ 31 - 1 \<and> a = NewAsyncRunner mn mx)"

lemmas runner_defs =
  NewAsyncRunner_def WaitClose_start_def receive_def worker_exit_def Apply_select_def Apply_load_def spawn_def
  Apply_spawn_def gc_load_def gc_decide_def

lemma i32_small: "0 \<le> x \<Longrightarrow> x < 2 ^ 31 \<Longrightarrow> i32 x = x" "0 \<le> x \<Longrightarrow> x < 2 ^ 31 \<Longrightarrow> i32 (x - 1) = x - 1"
  by (simp_all add: i32_id)

lemma count_inv_i32:
  assumes "count_inv a"
  shows "i32 (counter a + 1) = counter a + 1" and "i32 (counter a - 1) = counter a - 1"
proof -
  have "0 \<le> counter a" "counter a + 1 < 2 ^ 31" using assms by (auto simp: count_inv_def)
  then show "i32 (counter a + 1) = counter a + 1" "i32 (counter a - 1) = counter a - 1"
    by (auto intro!: i32_id)
qed

lemma count_inv_step:
  assumes inv: "count_inv a" and step: "run_step a b"
  shows "count_inv b"
proof -
  note i32 = count_inv_i32 [OF inv]
  note I = inv [unfolded count_inv_def]
  note defs = count_inv_def live_def runner_defs Let_def
  from step show ?thesis
  proof (cases rule: run_step.cases)
    case (run_apply t)
    then show ?thesis using I by (auto simp: defs split: holder.splits)
  next
    case (run_load t)
    then show ?thesis using I i32 by (auto simp: defs)
  next
    case (run_spawn t tn)
    then show ?thesis using I i32 by (auto simp: defs)
  next
    case (run_send t)
    then show ?thesis using I by (auto simp: defs split: holder.splits)
  next
    case run_park
    then show ?thesis using I by (auto simp: defs split: holder.splits)
  next
    case (run_finish t)
    then obtain R where "running a = add_mset t R" using multi_member_split by metis
    then show ?thesis using I run_finish by (auto simp: defs split: holder.splits)
  next
    case run_timer
    then show ?thesis using I by (auto simp: defs split: holder.splits)
  next
    case run_gc_load
    then show ?thesis using I by (auto simp: defs)
  next
    case (run_gc c)
    then show ?thesis using I i32 by (auto simp: defs)
  next
    case run_ctx_exit
    then show ?thesis using I i32 by (auto simp: defs split: holder.splits)
  next
    case run_cancel
    then show ?thesis using I by (auto simp: defs split: holder.splits)
  next
    case run_WaitClose
    then show ?thesis using I by (auto simp: defs split: holder.splits)
  next
    case run_closer
    then show ?thesis using I by (auto simp: defs split: holder.splits)
  qed
qed

lemma task_inv_step:
  assumes inv: "task_inv a" and step: "run_step a b"
  shows "task_inv b"
  using step inv
  by cases (auto simp: task_inv_def held_task_def runner_defs Let_def split: holder.splits
      intro: subset_mset.order_trans [OF diff_subset_eq_self])

interpretation runner: safe_system bounded_start run_step "\<lambda>a. count_inv a \<and> task_inv a"
proof (unfold_locales, goal_cases)
  case (1 a)
  then show ?case by (auto simp: bounded_start_def count_inv_def task_inv_def live_def held_task_def NewAsyncRunner_def)
next
  case (2 a b)
  then show ?case using count_inv_step task_inv_step by blast
qed

subsection \<open>With a positive minimum a worker stays\<close>

definition alive_inv :: "AsyncRunner \<Rightarrow> bool" where
  "alive_inv a \<longleftrightarrow> 1 \<le> rmin a \<and> 1 \<le> rmax a \<and> (\<not> closing a \<and> \<not> ctx_done a \<longrightarrow>
     closes a = 0 \<and> (\<forall>c. mutex a = GcLoaded c \<longrightarrow> c = counter a) \<and>
     (\<forall>t tn. mutex a = ApplyLoaded t tn \<longrightarrow> tn = counter a + 1) \<and>
     (sending a \<noteq> {#} \<longrightarrow> 1 \<le> counter a))"

lemma alive_inv_step:
  assumes count: "count_inv a" and inv: "alive_inv a" and step: "run_step a b"
  shows "alive_inv b"
proof -
  note i32 = count_inv_i32 [OF count]
  have nonneg: "0 \<le> counter a" and busy: "0 < idle a \<Longrightarrow> 1 \<le> counter a"
    using count by (auto simp: count_inv_def live_def)
  show ?thesis
    using step inv nonneg
    by cases (auto simp: alive_inv_def runner_defs Let_def i32 dest: busy split: if_splits)
qed

definition min_start :: "AsyncRunner \<Rightarrow> bool" where
  "min_start a \<longleftrightarrow> (\<exists>mn mx. 1 \<le> mn \<and> 1 \<le> mx \<and> mx < 2 ^ 31 - 1 \<and> a = NewAsyncRunner mn mx)"

interpretation min_runner: safe_system min_start run_step "\<lambda>a. count_inv a \<and> task_inv a \<and> alive_inv a"
proof (unfold_locales, goal_cases)
  case (1 a)
  then have "bounded_start a" by (auto simp: min_start_def bounded_start_def)
  with 1 show ?case using runner.init_inv by (auto simp: min_start_def alive_inv_def NewAsyncRunner_def)
next
  case (2 a b)
  then show ?case using count_inv_step task_inv_step alive_inv_step by blast
qed

subsection \<open>Stopping a pool\<close>

text \<open>
  The steps of a pool that gets no further task. When \<open>WaitClose\<close> has set the flag and no caller is on its way to
  spawn a worker, each step brings the workers nearer to their end, and the last one closes the channel.
\<close>

definition drain_step :: "AsyncRunner \<Rightarrow> AsyncRunner \<Rightarrow> bool" where
  "drain_step a b \<longleftrightarrow> run_step a b \<and> a \<noteq> b \<and> accepted b = accepted a"

definition drain_inv :: "AsyncRunner \<Rightarrow> bool" where
  "drain_inv a \<longleftrightarrow> count_inv a \<and> closing a \<and> want_lock a = {#} \<and> (\<forall>t tn. mutex a \<noteq> ApplyLoaded t tn) \<and>
     (if 0 < live a then closes a = 0 else closes a \<le> 1 \<and> (closes a = 1 \<or> ctx_done a \<or> \<not> closer a))"

definition drain_measure :: "AsyncRunner \<Rightarrow> nat" where
  "drain_measure a = 5 * size (running a) + 4 * booting a + 3 * idle a + 2 * at_gc a + 3 * size (sending a) +
     (if mutex a = Free then 0 else 1) + (if closer a then 1 else 0) + (if ctx_done a then 0 else 1)"

lemma drain_invD:
  assumes "drain_inv a"
  shows "count_inv a" and "closing a" and "want_lock a = {#}" and "mutex a \<noteq> ApplyLoaded t tn"
    and "if 0 < live a then closes a = 0 else closes a \<le> 1 \<and> (closes a = 1 \<or> ctx_done a \<or> \<not> closer a)"
  using assms unfolding drain_inv_def by blast+

lemma same_state: "ctx_done a \<Longrightarrow> a\<lparr>ctx_done := True\<rparr> = a" "closing a \<Longrightarrow> a\<lparr>closing := True\<rparr> = a"
  by (cases a; simp)+

lemma drain_inv_step:
  assumes inv: "drain_inv a" and step: "drain_step a b"
  shows "drain_inv b"
proof -
  note I = drain_invD [OF inv]
  have c: "count_inv b" by (rule count_inv_step [OF I(1)]) (use step in \<open>simp add: drain_step_def\<close>)
  note i32 = count_inv_i32 [OF I(1)]
  have n: "counter a = int (live a)" using I(1) by (simp add: count_inv_def)
  have "run_step a b" and acc: "accepted b = accepted a" using step by (auto simp: drain_step_def)
  then show ?thesis
    using c I(2-5)
  proof cases
    case (run_finish t)
    then obtain R where "running a = add_mset t R" using multi_member_split by metis
    then show ?thesis using c I(2-5) run_finish by (auto simp: drain_inv_def live_def split: holder.splits)
  next
    case (run_gc x)
    then show ?thesis using c I(2-5) i32 n by (auto simp: drain_inv_def live_def runner_defs Let_def split: if_splits)
  qed (auto simp: drain_inv_def live_def runner_defs Let_def split: if_splits holder.splits)
qed

lemma drain_step_less:
  assumes inv: "drain_inv a" and step: "drain_step a b"
  shows "drain_measure b < drain_measure a"
proof -
  note I = drain_invD [OF inv]
  have "run_step a b" and D: "a \<noteq> b" "accepted b = accepted a" using step by (auto simp: drain_step_def)
  then show ?thesis
  proof cases
    case (run_send t)
    then obtain S where "sending a = add_mset t S" using multi_member_split by metis
    then show ?thesis using run_send by (simp add: drain_measure_def runner_defs)
  next
    case (run_finish t)
    then obtain R where "running a = add_mset t R" using multi_member_split by metis
    then show ?thesis using run_finish by (simp add: drain_measure_def)
  next
    case (run_apply t)
    then show ?thesis using D(2) by (simp add: runner_defs Let_def split: if_splits)
  next
    case (run_load t)
    then show ?thesis using I(3) by simp
  next
    case (run_spawn t tn)
    then show ?thesis using I(4) by simp
  next
    case run_cancel
    then have "\<not> ctx_done a" using D(1) same_state(1) by metis
    then show ?thesis using run_cancel by (simp add: drain_measure_def)
  next
    case run_WaitClose
    then show ?thesis using D(1) same_state(2) [OF I(2)] by (simp add: WaitClose_start_def)
  qed (use I(2) in \<open>simp_all add: drain_measure_def runner_defs Let_def\<close>)
qed

text \<open>Until \<open>WaitClose\<close> can return, some worker or the closing goroutine has a step.\<close>

lemma drain_progress:
  assumes inv: "drain_inv a" and "\<not> Wait_returns a"
  shows "\<exists>b. drain_step a b"
proof -
  note I = drain_invD [OF inv]
  have step: "\<exists>b. drain_step a b" if "run_step a b" "drain_measure b \<noteq> drain_measure a" "accepted b = accepted a" for b
    using that by (auto simp: drain_step_def)
  consider (gc) c where "mutex a = GcLoaded c" | (free) "mutex a = Free" using I(4) by (cases "mutex a") auto
  then show ?thesis
  proof cases
    case gc
    show ?thesis by (rule step [OF run_gc [OF gc]]) (use gc I(2) in \<open>auto simp: drain_measure_def runner_defs Let_def\<close>)
  next
    case free
    consider "running a \<noteq> {#}" | "0 < booting a" | "0 < idle a" | "0 < at_gc a" | (none) "live a = 0"
      using free by (auto simp: live_def)
    then show ?thesis
    proof cases
      case 1
      then obtain t R where "running a = add_mset t R" by (metis multiset_cases)
      then show ?thesis by (intro step [OF run_finish [of t]]) (auto simp: drain_measure_def)
    next
      case 2
      then show ?thesis by (intro step [OF run_park]) (auto simp: drain_measure_def)
    next
      case 3
      then show ?thesis by (intro step [OF run_timer]) (auto simp: drain_measure_def)
    next
      case 4
      then show ?thesis by (intro step [OF run_gc_load]) (auto simp: drain_measure_def runner_defs free)
    next
      case none
      then have "closer a" "ctx_done a \<or> 0 < closes a"
        using assms(2) I(1,5) by (auto simp: Wait_returns_def count_inv_def split: if_splits)
      then show ?thesis by (intro step [OF run_closer]) (auto simp: drain_measure_def)
    qed
  qed
qed

interpretation drains: terminating_system drain_inv drain_step drain_inv drain_measure Wait_returns
  by unfold_locales (auto intro: drain_inv_step drain_step_less drain_progress)

subsection \<open>Concrete runs\<close>

lemma reach_bounded: "mx < 2 ^ 31 - 1 \<Longrightarrow> reach bounded_start run_step (NewAsyncRunner mn mx)"
  by (rule reach_init) (auto simp: bounded_start_def)

lemma reach_min: "1 \<le> mn \<Longrightarrow> 1 \<le> mx \<Longrightarrow> mx < 2 ^ 31 - 1 \<Longrightarrow> reach min_start run_step (NewAsyncRunner mn mx)"
  by (rule reach_init) (auto simp: min_start_def)

text \<open>
  A run that serves one task, from any pool whose bounds allow a worker; then, with \<open>min = 0\<close> and
  \<open>max = 1\<close>, a run in which the only worker leaves while a second caller is on its way to the channel.
\<close>

lemma ex_one_task:
  assumes start: "reach Init run_step (NewAsyncRunner mn 1)"
  shows "reach Init run_step (receive 7 ((NewAsyncRunner mn 1)\<lparr>counter := 1, wg := 2, idle := 1, accepted := {#7#}\<rparr>))"
proof -
  note simps = runner_defs Let_def i32_id
  note r = start [simplified simps, simplified]
  note r = reach_step [OF r run_apply [where t = 7], simplified simps, simplified]
  note r = reach_step [OF r run_load [where t = 7], simplified simps, simplified]
  note r = reach_step [OF r run_spawn [where t = 7 and tn = 1], simplified simps, simplified]
  note r = reach_step [OF r run_park, simplified simps, simplified]
  note r = reach_step [OF r run_send [where t = 7], simplified simps, simplified]
  show ?thesis using r by (simp add: runner_defs)
qed

lemma ex_worker_leaves:
  "reach bounded_start run_step ((NewAsyncRunner 0 1)\<lparr>closes := 1, wg := 1, sending := {#8#},
     accepted := {#7, 8#}, executed := {#7#}\<rparr>)"
proof -
  note simps = runner_defs Let_def i32_id
  note r = ex_one_task [where mn = 0, OF reach_bounded, simplified simps, simplified]
  note r = reach_step [OF r run_finish [where t = 7], simplified simps, simplified]
  note r = reach_step [OF r run_park, simplified simps, simplified]
  note r = reach_step [OF r run_timer, simplified simps, simplified]
  note r = reach_step [OF r run_apply [where t = 8], simplified simps, simplified]
  note r = reach_step [OF r run_load [where t = 8], simplified simps, simplified]
  note r = reach_step [OF r run_spawn [where t = 8 and tn = 2], simplified simps, simplified]
  note r = reach_step [OF r run_gc_load, simplified simps, simplified]
  note r = reach_step [OF r run_gc [where c = 1], simplified simps, simplified]
  show ?thesis using r by (simp add: runner_defs add_mset_commute)
qed

subsection \<open>Properties\<close>

text \<open>
  C9: in every reachable state of a pool with \<open>max < 2\<^sup>31 - 1\<close> the counter, which is also what \<open>Size\<close>
  reports, is the number of live workers and never above \<open>max\<close>, without 32-bit overflow; the wait
  group counts the same workers and the closing goroutine. The order of atomic operations, mutex
  sections and context exits does not matter.
\<close>

theorem pool_bounded:
  assumes "reach bounded_start run_step a"
  shows "runner_Size a = int (live a) \<and> (runner_Size a = 0 \<or> runner_Size a \<le> rmax a) \<and>
    wg a = int (live a) + (if closer a then 1 else 0)"
  using runner.reach_inv [OF assms] by (auto simp: count_inv_def runner_Size_def)

theorem pool_bounded_witness:
  "runner_Size (receive 7 ((NewAsyncRunner 0 1)\<lparr>counter := 1, wg := 2, idle := 1, accepted := {#7#}\<rparr>)) = 1"
  using pool_bounded [OF ex_one_task [OF reach_bounded], of 0]
  by (simp add: live_def receive_def NewAsyncRunner_def)

text \<open>
  C35: no task is lost or run twice inside the pool: every task given to \<open>Apply\<close> has been handed to exactly one
  worker, or its caller still waits.
\<close>

theorem pool_tasks:
  assumes "reach bounded_start run_step a"
  shows "accepted a = executed a + (want_lock a + sending a + held_task a) \<and> running a \<subseteq># executed a"
  using runner.reach_inv [OF assms] by (simp add: task_inv_def add.assoc)

theorem pool_tasks_witness:
  "accepted ((NewAsyncRunner 0 1)\<lparr>closes := 1, wg := 1, sending := {#8#}, accepted := {#7, 8#}, executed := {#7#}\<rparr>) = {#7#} + {#8#}"
  using pool_tasks [OF ex_worker_leaves] by (simp add: held_task_def NewAsyncRunner_def)

text \<open>
  C36: with \<open>min \<ge> 1\<close>, as long as neither the context ended nor \<open>WaitClose\<close> was called, a caller that waits for
  a worker waits for a live one, and the channel \<open>closeCh\<close> has not been closed.
\<close>

theorem pool_serves_waiting:
  assumes "reach min_start run_step a" and "\<not> closing a" and "\<not> ctx_done a"
  shows "closes a = 0 \<and> (sending a \<noteq> {#} \<longrightarrow> 0 < live a)"
  using min_runner.reach_inv [OF assms(1)] assms(2,3) by (auto simp: alive_inv_def count_inv_def)

theorem pool_serves_waiting_witness:
  "closes (receive 7 ((NewAsyncRunner 1 1)\<lparr>counter := 1, wg := 2, idle := 1, accepted := {#7#}\<rparr>)) = 0"
  using pool_serves_waiting [OF ex_one_task [OF reach_min], of 1]
  by (simp add: receive_def NewAsyncRunner_def)

text \<open>
  With \<open>min = 0\<close> a task can wait for ever: a caller finds the pool at its maximum, the only worker
  then leaves on its timer, and the caller is left at the channel with no worker, no context end and
  nobody to spawn one; the closing goroutine has been told that the pool is finished.
\<close>

theorem pool_can_lose_task:
  "\<exists>a. reach bounded_start run_step a \<and> \<not> closing a \<and> \<not> ctx_done a \<and> rmax a = 1 \<and>
     sending a \<noteq> {#} \<and> live a = 0 \<and> want_lock a = {#} \<and> mutex a = Free \<and> closes a = 1"
  using ex_worker_leaves by (intro exI conjI) (assumption | simp add: live_def NewAsyncRunner_def)+

text \<open>
  With \<open>min = 0\<close> the channel \<open>closeCh\<close> can be closed a second time, which panics: every time the last worker
  leaves it closes the channel, and a later task starts a new worker.
\<close>

theorem pool_can_close_twice:
  "\<exists>a. reach bounded_start run_step a \<and> \<not> closing a \<and> \<not> ctx_done a \<and> closes a = 2"
proof -
  note simps = runner_defs Let_def i32_id
  note r = ex_worker_leaves [simplified simps, simplified]
  note r = reach_step [OF r run_apply [where t = 9], simplified simps, simplified]
  note r = reach_step [OF r run_load [where t = 9], simplified simps, simplified]
  note r = reach_step [OF r run_spawn [where t = 9 and tn = 1], simplified simps, simplified]
  note r = reach_step [OF r run_park, simplified simps, simplified]
  note r = reach_step [OF r run_timer, simplified simps, simplified]
  note r = reach_step [OF r run_gc_load, simplified simps, simplified]
  note r = reach_step [OF r run_gc [where c = 1], simplified simps, simplified]
  show ?thesis using r by (intro exI conjI) (assumption | simp)+
qed

text \<open>
  C11: \<open>WaitClose\<close> returns, under these conditions: it has set its flag, the pool has a live worker, \<open>closeCh\<close> has not
  been closed before, and no caller of \<open>Apply\<close> is on its way to spawn a worker (none waits for the mutex, none
  has read the counter). Then every run of the pool without further tasks is bounded, is never stuck before
  the wait group is at zero, and closes \<open>closeCh\<close> at most once, so it does not panic. The conditions matter: a
  caller on its way can start a worker after the last one left, which closes \<open>closeCh\<close> again and panics
  (as in \<open>pool_can_close_twice\<close>), and a pool that never started a worker is not closed at all (\<open>WaitClose_unused_blocks\<close>).
\<close>

theorem WaitClose_returns:
  assumes "reach bounded_start run_step a" and "closing a" and "want_lock a = {#}"
    and "\<forall>t tn. mutex a \<noteq> ApplyLoaded t tn" and "0 < live a" and "closes a = 0"
  shows "(\<exists>b. drain_step\<^sup>*\<^sup>* a b \<and> Wait_returns b) \<and>
    (\<forall>n b. (drain_step ^^ n) a b \<longrightarrow> n \<le> drain_measure a \<and> closes b \<le> 1 \<and> (Wait_returns b \<or> (\<exists>c. drain_step b c)))"
proof -
  have inv: "drain_inv a"
    using runner.reach_inv [OF assms(1)] assms(2-6) by (simp add: drain_inv_def)
  have "n \<le> drain_measure a \<and> closes b \<le> 1 \<and> (Wait_returns b \<or> (\<exists>c. drain_step b c))" if "(drain_step ^^ n) a b" for n b
  proof -
    have b: "drain_inv b" by (rule drains.steps_inv [OF inv relpowp_imp_rtranclp [OF that]])
    have "closes b \<le> 1" using drain_invD(5) [OF b] by (simp split: if_splits)
    then show ?thesis using drains.run_bounded [OF inv that] drains.progress [OF b] by auto
  qed
  then show ?thesis using drains.ends_final [OF inv] by blast
qed

theorem WaitClose_returns_witness:
  "\<exists>b. drain_step\<^sup>*\<^sup>* (WaitClose_start (receive 7 ((NewAsyncRunner 1 1)\<lparr>counter := 1, wg := 2, idle := 1, accepted := {#7#}\<rparr>))) b \<and>
     Wait_returns b"
  using WaitClose_returns [OF reach_step [OF ex_one_task [OF reach_bounded] run_WaitClose], of 1]
  by (simp add: live_def WaitClose_start_def receive_def NewAsyncRunner_def)

text \<open>
  On a pool that never started a worker \<open>WaitClose\<close> returns only when the context ends: nobody closes \<open>closeCh\<close>,
  so the closing goroutine stays.
\<close>

theorem WaitClose_unused_blocks:
  "\<not> (\<exists>b. (\<lambda>a b. drain_step a b \<and> \<not> ctx_done b)\<^sup>*\<^sup>* (WaitClose_start (NewAsyncRunner mn mx)) b \<and> Wait_returns b)"
proof -
  let ?a = "WaitClose_start (NewAsyncRunner mn mx)"
  have "b = ?a" if "run_step ?a b" "accepted b = accepted ?a" "\<not> ctx_done b" for b
    using that by cases (auto simp: runner_defs Let_def)
  then have stuck: "\<not> (drain_step ?a b \<and> \<not> ctx_done b)" for b by (auto simp: drain_step_def)
  have "b = ?a" if "(\<lambda>a b. drain_step a b \<and> \<not> ctx_done b)\<^sup>*\<^sup>* ?a b" for b
    using that by (cases rule: converse_rtranclpE) (use stuck in auto)
  moreover have "\<not> Wait_returns ?a" by (simp add: Wait_returns_def runner_defs)
  ultimately show ?thesis by blast
qed

end
