(* ===== verification/Spawn.thy ===== *)
theory Spawn
  imports Prelude
begin

text \<open>
  \<open>Spawn\<close> of \<open>funcs.go\<close>: a loop that starts \<open>size\<close> goroutines, each of which calls \<open>fn\<close> with the loop variable.
  The variable is shared by the loop and the goroutines (\<open>go.mod\<close> asks for Go 1.13), so a goroutine sees
  the value of the moment in which it runs.
\<close>

subsection \<open>The loop and its goroutines\<close>

text \<open>Where the loop stands: before the test of its condition, behind the \<open>go\<close> statement, or returned.\<close>

datatype spawn_pc = Test | Post | Returned

record spawn_state =
  sp_pc :: spawn_pc
  sp_i :: nat
  sp_pending :: nat
  sp_wg :: int
  sp_calls :: "nat list"

definition spawn_start :: spawn_state where
  "spawn_start = \<lparr>sp_pc = Test, sp_i = 0, sp_pending = 0, sp_wg = 0, sp_calls = []\<rparr>"

inductive spawn_step :: "nat \<Rightarrow> spawn_state \<Rightarrow> spawn_state \<Rightarrow> bool" for sz :: nat where
  sp_go: "sp_pc s = Test \<Longrightarrow> sp_i s < sz \<Longrightarrow>
    spawn_step sz s (s\<lparr>sp_pc := Post, sp_wg := sp_wg s + 1, sp_pending := sp_pending s + 1\<rparr>)"
| sp_inc: "sp_pc s = Post \<Longrightarrow> spawn_step sz s (s\<lparr>sp_pc := Test, sp_i := sp_i s + 1\<rparr>)"
| sp_return: "sp_pc s = Test \<Longrightarrow> \<not> sp_i s < sz \<Longrightarrow> spawn_step sz s (s\<lparr>sp_pc := Returned\<rparr>)"
| sp_run: "sp_pending s > 0 \<Longrightarrow>
    spawn_step sz s (s\<lparr>sp_pending := sp_pending s - 1, sp_wg := sp_wg s - 1, sp_calls := sp_calls s @ [sp_i s]\<rparr>)"

text \<open>The caller's \<open>Wait\<close> on the returned wait group is over.\<close>

definition spawn_done :: "spawn_state \<Rightarrow> bool" where
  "spawn_done s \<longleftrightarrow> sp_pc s = Returned \<and> sp_wg s = 0"

subsection \<open>It ends, after as many calls\<close>

definition started_by :: "spawn_state \<Rightarrow> nat" where
  "started_by s = (if sp_pc s = Post then sp_i s + 1 else sp_i s)"

definition spawn_inv :: "nat \<Rightarrow> spawn_state \<Rightarrow> bool" where
  "spawn_inv sz s \<longleftrightarrow>
     sp_wg s = int (sp_pending s) \<and> length (sp_calls s) + sp_pending s = started_by s \<and> started_by s \<le> sz \<and>
     (sp_pc s = Returned \<longrightarrow> sp_i s = sz) \<and>
     (\<forall>n < length (sp_calls s). sp_calls s ! n \<le> sp_i s \<and> n \<le> sp_calls s ! n)"

definition spawn_measure :: "nat \<Rightarrow> spawn_state \<Rightarrow> nat" where
  "spawn_measure sz s =
     sp_pending s + (case sp_pc s of Test \<Rightarrow> 3 * (sz - sp_i s) + 1 | Post \<Rightarrow> 3 * (sz - sp_i s) - 1 | Returned \<Rightarrow> 0)"

interpretation spawns: terminating_system "\<lambda>s. s = spawn_start" "spawn_step sz" "spawn_inv sz" "spawn_measure sz" spawn_done
  for sz
proof
  fix s t assume inv: "spawn_inv sz s" and step: "spawn_step sz s t"
  show "spawn_inv sz t"
    using step
  proof cases
    case sp_run
    then have "length (sp_calls s) \<le> sp_i s" using inv by (auto simp: spawn_inv_def started_by_def split: if_splits)
    with sp_run inv show ?thesis
      by (auto simp: spawn_inv_def started_by_def nth_append split: if_splits)
  qed (use inv in \<open>auto simp: spawn_inv_def started_by_def intro: le_SucI\<close>)
  show "spawn_measure sz t < spawn_measure sz s"
    using step inv by cases (auto simp: spawn_measure_def spawn_inv_def started_by_def split: spawn_pc.splits)
next
  fix s assume "spawn_inv sz s" and "\<not> spawn_done s"
  then have "sp_pending s > 0" if "sp_pc s = Returned" using that by (auto simp: spawn_inv_def spawn_done_def)
  then show "\<exists>t. spawn_step sz s t"
    by (cases "sp_pc s"; cases "sp_i s < sz") (blast intro: spawn_step.intros)+
qed (simp add: spawn_inv_def spawn_start_def started_by_def)

text \<open>
  C19: \<open>Spawn\<close> and the wait on its group come to an end on every schedule: no run has more than three steps for each
  goroutine and one for the return, no state before the end is stuck, and from every reachable state some run
  ends. At the end the function was called \<open>size\<close> times, the n-th call with an argument between n and \<open>size\<close>.
\<close>

theorem Spawn_calls:
  assumes "reach (\<lambda>s. s = spawn_start) (spawn_step sz) s"
  shows "(\<forall>n t. (spawn_step sz ^^ n) spawn_start t \<longrightarrow> n \<le> 3 * sz + 1) \<and>
    (spawn_done s \<or> (\<exists>t. spawn_step sz s t)) \<and>
    (\<exists>t. (spawn_step sz)\<^sup>*\<^sup>* s t \<and> spawn_done t) \<and>
    (spawn_done s \<longrightarrow> length (sp_calls s) = sz \<and> (\<forall>n < sz. n \<le> sp_calls s ! n \<and> sp_calls s ! n \<le> sz))"
proof (intro conjI)
  have inv: "spawn_inv sz s" using assms by (rule spawns.reach_inv)
  have start: "spawn_inv sz spawn_start" by (rule spawns.init_inv) simp
  show "\<forall>n t. (spawn_step sz ^^ n) spawn_start t \<longrightarrow> n \<le> 3 * sz + 1"
    using spawns.run_bounded [OF start] by (fastforce simp: spawn_measure_def spawn_start_def)
  show "spawn_done s \<or> (\<exists>t. spawn_step sz s t)" using spawns.progress [OF inv] by blast
  show "\<exists>t. (spawn_step sz)\<^sup>*\<^sup>* s t \<and> spawn_done t" using inv by (rule spawns.ends_final)
  show "spawn_done s \<longrightarrow> length (sp_calls s) = sz \<and> (\<forall>n < sz. n \<le> sp_calls s ! n \<and> sp_calls s ! n \<le> sz)"
    using inv by (auto simp: spawn_inv_def spawn_done_def started_by_def)
qed

theorem Spawn_calls_witness:
  "(\<exists>t. (spawn_step 3)\<^sup>*\<^sup>* spawn_start t \<and> spawn_done t) \<and> (\<exists>t. spawn_step 3 spawn_start t)"
  using Spawn_calls [OF reach_init, of spawn_start 3] by (simp add: spawn_done_def spawn_start_def)

lemma spawn_all_started:
  "i \<le> sz \<Longrightarrow> (spawn_step sz)\<^sup>*\<^sup>* spawn_start
     \<lparr>sp_pc = Test, sp_i = i, sp_pending = i, sp_wg = int i, sp_calls = []\<rparr>"
proof (induction i)
  case 0
  then show ?case by (simp add: spawn_start_def)
next
  case (Suc i)
  let ?s = "\<lparr>sp_pc = Test, sp_i = i, sp_pending = i, sp_wg = int i, sp_calls = []\<rparr>"
  let ?m = "\<lparr>sp_pc = Post, sp_i = i, sp_pending = Suc i, sp_wg = int i + 1, sp_calls = []\<rparr>"
  have "spawn_step sz ?s ?m" using sp_go [of ?s sz] Suc.prems by simp
  moreover have "spawn_step sz ?m \<lparr>sp_pc = Test, sp_i = Suc i, sp_pending = Suc i, sp_wg = int (Suc i), sp_calls = []\<rparr>"
    using sp_inc [of ?m sz] by (simp add: add.commute)
  ultimately show ?case using Suc by (meson Suc_leD rtranclp.rtrancl_into_rtrancl)
qed

lemma spawn_all_run:
  "(spawn_step sz)\<^sup>*\<^sup>* \<lparr>sp_pc = Returned, sp_i = sz, sp_pending = p, sp_wg = int p, sp_calls = cs\<rparr>
     \<lparr>sp_pc = Returned, sp_i = sz, sp_pending = 0, sp_wg = 0, sp_calls = cs @ replicate p sz\<rparr>"
proof (induction p arbitrary: cs)
  case (Suc p)
  let ?s = "\<lparr>sp_pc = Returned, sp_i = sz, sp_pending = Suc p, sp_wg = int (Suc p), sp_calls = cs\<rparr>"
  have "spawn_step sz ?s \<lparr>sp_pc = Returned, sp_i = sz, sp_pending = p, sp_wg = int p, sp_calls = cs @ [sz]\<rparr>"
    using sp_run [of ?s sz] by simp
  from converse_rtranclp_into_rtranclp [OF this Suc.IH] show ?case by simp
qed simp

text \<open>
  For every \<open>size\<close> there is a run in which all goroutines call the function with \<open>size\<close>, an argument that
  none of them was meant to have: the loop variable is shared.
\<close>

theorem Spawn_shares_variable:
  "\<exists>s. (spawn_step sz)\<^sup>*\<^sup>* spawn_start s \<and> spawn_done s \<and> sp_calls s = replicate sz sz"
proof -
  let ?t = "\<lparr>sp_pc = Test, sp_i = sz, sp_pending = sz, sp_wg = int sz, sp_calls = []\<rparr>"
  have "spawn_step sz ?t \<lparr>sp_pc = Returned, sp_i = sz, sp_pending = sz, sp_wg = int sz, sp_calls = []\<rparr>"
    using sp_return [of ?t sz] by simp
  with spawn_all_started [OF order_refl]
  have "(spawn_step sz)\<^sup>*\<^sup>* spawn_start \<lparr>sp_pc = Returned, sp_i = sz, sp_pending = sz, sp_wg = int sz, sp_calls = []\<rparr>"
    by (rule rtranclp.rtrancl_into_rtrancl)
  from rtranclp_trans [OF this spawn_all_run]
  have "(spawn_step sz)\<^sup>*\<^sup>* spawn_start
      \<lparr>sp_pc = Returned, sp_i = sz, sp_pending = 0, sp_wg = 0, sp_calls = replicate sz sz\<rparr>" by simp
  then show ?thesis
    by (intro exI [of _ "\<lparr>sp_pc = Returned, sp_i = sz, sp_pending = 0, sp_wg = 0, sp_calls = replicate sz sz\<rparr>"])
      (simp add: spawn_done_def)
qed

end
