(* ===== verification/Types.thy ===== *)
theory Types
  imports GoBytes
begin

text \<open>
  The data types of \<open>types.go\<close>: the request/response frame \<open>RawData\<close> with its \<open>big.Int\<close> identifier,
  the six-byte \<open>SimplePacketHead\<close>, the \<open>PeerDirection\<close> strings and the \<open>blankValidator\<close>.
\<close>

subsection \<open>RawData\<close>

record RawData =
  rId :: "byte list"
  rErr :: string
  rData :: "byte list"

text \<open>
  \<open>new(RawData)\<close>, and \<open>NewRawData\<close>: a nil id is replaced by a fresh UUID, whose sixteen random bytes
  are the argument \<open>uuid\<close>. \<open>big.Int.Bytes\<close> forgets the sign.
\<close>

definition zero_RawData :: RawData where
  "zero_RawData = \<lparr>rId = [], rErr = [], rData = []\<rparr>"

definition NewRawData :: "byte list \<Rightarrow> int option \<Rightarrow> byte list \<Rightarrow> RawData" where
  "NewRawData uuid ident data =
     (let i = (case ident of None \<Rightarrow> int (bytes_to_nat uuid) | Some i \<Rightarrow> i)
      in \<lparr>rId = nat_to_bytes (nat \<bar>i\<bar>), rErr = [], rData = data\<rparr>)"

definition RawData_Len :: "RawData \<Rightarrow> int" where
  "RawData_Len d = int (length (rData d))"

definition RawData_ID :: "RawData \<Rightarrow> int" where
  "RawData_ID d = int (bytes_to_nat (rId d))"

lemma RawData_ID_New: "RawData_ID (NewRawData uuid (Some i) data) = \<bar>i\<bar>"
  by (simp add: RawData_ID_def NewRawData_def)

lemma RawData_ID_New_nil: "RawData_ID (NewRawData uuid None data) = int (bytes_to_nat uuid)"
  by (simp add: RawData_ID_def NewRawData_def)

lemma RawData_New_sel [simp]:
  "rErr (NewRawData uuid i data) = []" "rData (NewRawData uuid i data) = data"
  by (simp_all add: NewRawData_def Let_def)

text \<open>Echoing the id of a request: the response built from \<open>req.ID()\<close> has the request's id.\<close>

lemma RawData_ID_echo [simp]: "RawData_ID (NewRawData uuid (Some (RawData_ID req)) data) = RawData_ID req"
  by (simp add: RawData_ID_New) (simp add: RawData_ID_def)

subsection \<open>SimplePacketHead\<close>

type_synonym SimplePacketHead = "byte list"

text \<open>
  \<open>ReadSimplePacketHead\<close>: a reader is asked for six bytes and answers with the bytes it stored and an
  error. The result is the head (\<open>None\<close> for nil) and the error.
\<close>

type_synonym reader = "nat \<Rightarrow> byte list \<times> err"

definition ReadSimplePacketHead :: "reader \<Rightarrow> SimplePacketHead option \<times> err" where
  "ReadSimplePacketHead r =
     (let (got, e) = r 6
      in if length got \<noteq> 6 \<or> e \<noteq> None then (None, e) else (Some got, None))"

definition NewSimplePacketHead :: "16 word \<Rightarrow> byte list \<Rightarrow> SimplePacketHead" where
  "NewSimplePacketHead msgType data = (let psize = of_nat (length data) :: 32 word
     in be16 msgType @ be32 psize)"

text \<open>The named results start as zero values and are returned as far as they were assigned.\<close>

definition Decode :: "SimplePacketHead \<Rightarrow> 16 word \<times> 32 word \<times> err" where
  "Decode header =
     (if length header \<noteq> 6 then (0, 0, Some ''error_header'')
      else case un_be16 (take 2 header) of
        None \<Rightarrow> (0, 0, Some ''unexpected EOF'')
      | Some msgType \<Rightarrow>
          (case un_be32 (drop 2 header) of
             None \<Rightarrow> (msgType, 0, Some ''unexpected EOF'')
           | Some sz \<Rightarrow> (msgType, sz, None)))"

lemma length_NewSimplePacketHead [simp]: "length (NewSimplePacketHead t d) = 6"
  by (simp add: NewSimplePacketHead_def)

lemma Decode_parts:
  "length h = 6 \<Longrightarrow> \<exists>t n. un_be16 (take 2 h) = Some t \<and> un_be32 (drop 2 h) = Some n \<and> Decode h = (t, n, None)"
  using un_be16_total [of "take 2 h"] un_be32_total [of "drop 2 h"]
  by (auto simp: Decode_def)

lemma Decode_head: "Decode (be16 t @ be32 n) = (t, n, None)"
  by (simp add: Decode_def un_be16_be16 un_be32_be32)

text \<open>A decoder in the shape of the codec interface: the head decodes iff it has six bytes.\<close>

definition head_enc :: "16 word \<times> 32 word \<Rightarrow> SimplePacketHead" where
  "head_enc = (\<lambda>(t, n). be16 t @ be32 n)"

definition head_dec :: "SimplePacketHead \<Rightarrow> (16 word \<times> 32 word) option" where
  "head_dec h = (case Decode h of (t, n, None) \<Rightarrow> Some (t, n) | _ \<Rightarrow> None)"

interpretation packet_head: exact_codec head_enc head_dec "\<lambda>_. True"
proof unfold_locales
  fix x show "head_dec (head_enc x) = Some x"
    by (cases x) (simp add: head_dec_def head_enc_def Decode_head)
next
  fix h x assume dec: "head_dec h = Some x"
  then have "length h = 6" by (auto simp: head_dec_def Decode_def split: if_splits)
  then obtain t n where tn: "un_be16 (take 2 h) = Some t" "un_be32 (drop 2 h) = Some n"
      "Decode h = (t, n, None)" using Decode_parts by blast
  with dec have "x = (t, n)" by (simp add: head_dec_def)
  with tn show "head_enc x = h"
    by (simp add: head_enc_def be16_un_be16 be32_un_be32)
qed simp

subsection \<open>PeerDirection\<close>

datatype Direction = DirUnknown | DirInbound | DirOutbound

type_synonym PeerDirection = string

fun NewPeerDirection :: "string \<Rightarrow> Direction \<Rightarrow> PeerDirection" where
  "NewPeerDirection s DirInbound = s @ ''(IN)''"
| "NewPeerDirection s DirOutbound = s @ ''(OUT)''"
| "NewPeerDirection s DirUnknown = s"

definition PeerDirection_Direction :: "PeerDirection \<Rightarrow> Direction" where
  "PeerDirection_Direction pd =
     (if strings_Contains pd ''(IN)'' then DirInbound
      else if strings_Contains pd ''(OUT)'' then DirOutbound
      else DirUnknown)"

text \<open>\<open>strings.Split\<close> never returns an empty slice here, so index 0 is always valid.\<close>

definition PeerDirection_ID :: "PeerDirection \<Rightarrow> string" where
  "PeerDirection_ID pd = hd (strings_Split pd ''('')"

definition PeerDirection_Pretty :: "PeerDirection \<Rightarrow> string outcome" where
  "PeerDirection_Pretty pd =
     (if strings_Contains (PeerDirection_ID pd) ''/p2p/''
      then index_at (strings_Split (PeerDirection_ID pd) ''/p2p/'') 1
      else if strings_Contains (PeerDirection_ID pd) ''ipfs''
      then index_at (strings_Split (PeerDirection_ID pd) ''ipfs/'') 1
      else Return (PeerDirection_ID pd))"

definition PeerDirection_String :: "PeerDirection \<Rightarrow> string" where
  "PeerDirection_String pd = pd"

lemma PeerDirection_ID_New:
  "CHR ''('' \<notin> set s \<Longrightarrow> PeerDirection_ID (NewPeerDirection s d) = s"
  by (cases d) (simp_all add: PeerDirection_ID_def Split_char_first Split_char_none)

lemma PeerDirection_ID_prefix: "\<exists>t. pd = PeerDirection_ID pd @ t"
proof (cases "CHR ''('' \<in> set pd")
  case True
  then obtain a b where "pd = a @ CHR ''('' # b" "CHR ''('' \<notin> set a"
    by (metis split_list_first)
  then show ?thesis by (simp add: PeerDirection_ID_def Split_char_first)
next
  case False
  then show ?thesis by (simp add: PeerDirection_ID_def Split_char_none)
qed

lemma PeerDirection_Direction_New:
  assumes "CHR ''('' \<notin> set s"
  shows "PeerDirection_Direction (NewPeerDirection s d) = d"
  using assms not_Contains_char [of "CHR ''(''" _ s]
  by (cases d) (simp_all add: PeerDirection_Direction_def Contains_skip hasPrefix_def)

text \<open>
  A \<open>PeerDirection\<close> built from a direction and an identifier without parentheses gives both
  back, whatever the direction.
\<close>

theorem PeerDirection_roundtrip:
  assumes "CHR ''('' \<notin> set s"
  shows "PeerDirection_ID (NewPeerDirection s d) = s \<and> PeerDirection_Direction (NewPeerDirection s d) = d"
  using assms by (simp add: PeerDirection_ID_New PeerDirection_Direction_New)

theorem PeerDirection_roundtrip_witness:
  "PeerDirection_ID (NewPeerDirection ''16Uiu2'' DirOutbound) = ''16Uiu2'' \<and>
   PeerDirection_Direction (NewPeerDirection ''16Uiu2'' DirOutbound) = DirOutbound"
  by (rule PeerDirection_roundtrip) simp

text \<open>
  \<open>Pretty\<close> panics exactly on the identifiers that contain \<open>ipfs\<close> but neither the path separator
  \<open>/p2p/\<close> nor \<open>ipfs/\<close>; a plain base58 peer id may contain the four letters, so the condition is
  met by identifiers the service itself produces.
\<close>

theorem PeerDirection_Pretty_panics_iff:
  "(\<exists>p. PeerDirection_Pretty pd = Panic p) \<longleftrightarrow>
   (let i = PeerDirection_ID pd
    in \<not> strings_Contains i ''/p2p/'' \<and> strings_Contains i ''ipfs'' \<and> \<not> strings_Contains i ''ipfs/'')"
proof -
  have "2 \<le> length (strings_Split (PeerDirection_ID pd) ''/p2p/'')"
    if "strings_Contains (PeerDirection_ID pd) ''/p2p/''"
    using that by (rule Split_Contains_length [rotated]) simp
  moreover have "2 \<le> length (strings_Split (PeerDirection_ID pd) ''ipfs/'')"
    if "strings_Contains (PeerDirection_ID pd) ''ipfs/''"
    using that by (rule Split_Contains_length [rotated]) simp
  ultimately show ?thesis
    by (cases "strings_Contains (PeerDirection_ID pd) ''ipfs/''")
      (auto simp: PeerDirection_Pretty_def Let_def)
qed

text \<open>The identifier at the end of a full address is what \<open>Pretty\<close> extracts.\<close>

lemma PeerDirection_Pretty_addr:
  assumes "CHR ''('' \<notin> set (addr @ ident)" and "CHR ''/'' \<notin> set ident"
    and "\<not> strings_Contains (addr @ ''/p2p'') ''/p2p/''"
  shows "PeerDirection_Pretty (NewPeerDirection (addr @ ''/p2p/'' @ ident) d) = Return ident"
proof -
  have "PeerDirection_ID (NewPeerDirection (addr @ ''/p2p/'' @ ident) d) = addr @ ''/p2p/'' @ ident"
    using assms(1) by (intro PeerDirection_ID_New) auto
  moreover have "strings_Split (addr @ ''/p2p/'' @ ident) ''/p2p/'' = [addr, ident]"
    using assms Split_first [of "''/p2p/''" addr ident] not_Contains_char [of "CHR ''/''" "''/p2p/''" ident]
    by simp
  ultimately show ?thesis
    using Contains_mid [of addr "''/p2p/''" ident] by (simp add: PeerDirection_Pretty_def)
qed

subsection \<open>blankValidator\<close>

definition blankValidator_Validate :: "string \<Rightarrow> byte list \<Rightarrow> err" where
  "blankValidator_Validate k v = None"

definition blankValidator_Select :: "string \<Rightarrow> byte list list \<Rightarrow> int \<times> err" where
  "blankValidator_Select k vs = (0, None)"

end
