(* ===== verification/Config.thy ===== *)
theory Config
  imports Digest Types
begin

text \<open>
  \<open>config.go\<close>, \<open>options.go\<close> and \<open>defaults.go\<close>: the configuration record, its functional options, the
  fallback defaults that \<open>New\<close> appends, the pre-shared key of the private network and the yamux
  transport's settings. \<open>uint64\<close> fields are 64-bit words; \<open>int\<close> and \<open>int64\<close> fields are only compared
  and stored, so they are integers.
\<close>

subsection \<open>The configuration\<close>

record PrivateKey =
  keyX :: int
  keyY :: int
  keyD :: int

datatype Context = Background | UserContext nat

record Config =
  Ctx :: "Context option"
  Homedir :: string
  Port :: "64 word"
  ConnLow :: "64 word"
  ConnHi :: "64 word"
  BootstrapPeriod :: "64 word"
  Bootnodes :: "string list"
  ClientProtocols :: "string list"
  Discover :: bool
  Relay :: bool
  DisableInbound :: bool
  EnableMetric :: bool
  Networkid :: "int option"
  MuxPort :: "int option"
  PrivKey :: "PrivateKey option"
  Loglevel :: int
  MaxMsgSize :: int

definition zero_Config :: Config where
  "zero_Config = \<lparr>Ctx = None, Homedir = [], Port = 0, ConnLow = 0, ConnHi = 0, BootstrapPeriod = 0,
     Bootnodes = [], ClientProtocols = [], Discover = False, Relay = False, DisableInbound = False,
     EnableMetric = False, Networkid = None, MuxPort = None, PrivKey = None, Loglevel = 0,
     MaxMsgSize = 0\<rparr>"

text \<open>
  An option mutates the configuration and returns an error. \<open>Apply\<close> skips nil options and stops at
  the first error, keeping what was assigned until then. \<open>Config\<close> and \<open>TopicConfig\<close> have the same
  loop, over their own type.
\<close>

type_synonym 'c opt_fn = "'c \<Rightarrow> err \<times> 'c"

fun Apply :: "'c opt_fn option list \<Rightarrow> 'c \<Rightarrow> err \<times> 'c" where
  "Apply [] cfg = (None, cfg)"
| "Apply (None # opts) cfg = Apply opts cfg"
| "Apply (Some opt # opts) cfg =
     (case opt cfg of (Some e, cfg') \<Rightarrow> (Some e, cfg') | (None, cfg') \<Rightarrow> Apply opts cfg')"

definition Config_Apply :: "Config opt_fn option list \<Rightarrow> Config \<Rightarrow> err \<times> Config" where
  "Config_Apply opts cfg = Apply opts cfg"

lemma Apply_append:
  "Apply (xs @ ys) cfg = (case Apply xs cfg of (Some e, c) \<Rightarrow> (Some e, c) | (None, c) \<Rightarrow> Apply ys c)"
  by (induction xs cfg rule: Apply.induct) (auto split: prod.splits option.splits)

subsection \<open>Options\<close>

definition Opt_MaxMsgSize :: "int \<Rightarrow> Config opt_fn" where
  "Opt_MaxMsgSize sz cfg =
     (let sz = (if sz < 1024 * 1024 then 1024 * 1024 else sz) in (None, cfg\<lparr>MaxMsgSize := sz\<rparr>))"

definition Opt_Loglevel :: "int \<Rightarrow> Config opt_fn" where
  "Opt_Loglevel level cfg = (None, cfg\<lparr>Loglevel := level\<rparr>)"

definition Opt_Identity :: "PrivateKey option \<Rightarrow> Config opt_fn" where
  "Opt_Identity priv cfg = (None, cfg\<lparr>PrivKey := priv\<rparr>)"

definition Opt_Network :: "64 word \<Rightarrow> 64 word \<Rightarrow> 64 word \<Rightarrow> Config opt_fn" where
  "Opt_Network port muxport networkid cfg =
     (let mp = (if 0 < muxport then uint muxport else 0);
          nid = (if 0 < networkid then uint networkid else 0)
      in (None, cfg\<lparr>Networkid := Some nid, Port := port, MuxPort := Some mp\<rparr>))"

definition Opt_Bootnodes :: "string list \<Rightarrow> Config opt_fn" where
  "Opt_Bootnodes bootnodes cfg = (None, cfg\<lparr>Bootnodes := bootnodes\<rparr>)"

definition Opt_ClientProtocols :: "string list \<Rightarrow> Config opt_fn" where
  "Opt_ClientProtocols protocols cfg = (None, cfg\<lparr>ClientProtocols := protocols\<rparr>)"

definition Opt_Context :: "Context option \<Rightarrow> Config opt_fn" where
  "Opt_Context ctx cfg = (None, cfg\<lparr>Ctx := ctx\<rparr>)"

definition Opt_Homedir :: "string \<Rightarrow> Config opt_fn" where
  "Opt_Homedir dir cfg = (None, cfg\<lparr>Homedir := dir\<rparr>)"

definition Opt_ConnectManger :: "64 word \<Rightarrow> 64 word \<Rightarrow> 64 word \<Rightarrow> Config opt_fn" where
  "Opt_ConnectManger bootstrapPeriod connLow connHi cfg =
     (None, cfg\<lparr>BootstrapPeriod := bootstrapPeriod, ConnLow := connLow, ConnHi := connHi\<rparr>)"

definition Opt_EnableMetric :: "bool \<Rightarrow> Config opt_fn" where
  "Opt_EnableMetric b cfg = (None, cfg\<lparr>EnableMetric := b\<rparr>)"

definition Opt_Discover :: "bool \<Rightarrow> Config opt_fn" where
  "Opt_Discover b cfg = (None, cfg\<lparr>Discover := b\<rparr>)"

definition Opt_Relay :: "bool \<Rightarrow> Config opt_fn" where
  "Opt_Relay b cfg = (None, cfg\<lparr>Relay := b\<rparr>)"

definition Opt_DisableInbound :: "bool \<Rightarrow> Config opt_fn" where
  "Opt_DisableInbound b cfg = (None, cfg\<lparr>DisableInbound := b\<rparr>)"

lemmas opt_defs [comp_defs] =
  Opt_MaxMsgSize_def Opt_Loglevel_def Opt_Identity_def Opt_Network_def Opt_Bootnodes_def
  Opt_ClientProtocols_def Opt_Context_def Opt_Homedir_def Opt_ConnectManger_def
  Opt_EnableMetric_def Opt_Discover_def Opt_Relay_def Opt_DisableInbound_def

subsection \<open>Fallback defaults\<close>

definition defaults :: "((Config \<Rightarrow> bool) \<times> Config opt_fn) list" where
  "defaults =
    [(\<lambda>cfg. Ctx cfg = None, \<lambda>cfg. (None, cfg\<lparr>Ctx := Some Background\<rparr>)),
     (\<lambda>cfg. Networkid cfg = None, \<lambda>cfg. (None, cfg\<lparr>Networkid := Some 111\<rparr>)),
     (\<lambda>cfg. BootstrapPeriod cfg = 0, \<lambda>cfg. (None, cfg\<lparr>BootstrapPeriod := 45\<rparr>)),
     (\<lambda>cfg. Loglevel cfg = 0, \<lambda>cfg. (None, cfg\<lparr>Loglevel := 3\<rparr>)),
     (\<lambda>cfg. ConnLow cfg = 0, \<lambda>cfg. (None, cfg\<lparr>ConnLow := 50\<rparr>)),
     (\<lambda>cfg. ConnHi cfg = 0, \<lambda>cfg. (None, cfg\<lparr>ConnHi := 200\<rparr>)),
     (\<lambda>cfg. PrivKey cfg = None \<and> Homedir cfg = [],
      \<lambda>cfg. (Some ''privateKey and homedir both empty'', cfg))]"

fun run_defaults :: "((Config \<Rightarrow> bool) \<times> Config opt_fn) list \<Rightarrow> Config opt_fn" where
  "run_defaults [] cfg = (None, cfg)"
| "run_defaults ((fallback, opt) # ds) cfg =
     (if \<not> fallback cfg then run_defaults ds cfg
      else case Config_Apply [Some opt] cfg of
        (Some e, cfg') \<Rightarrow> (Some e, cfg')
      | (None, cfg') \<Rightarrow> run_defaults ds cfg')"

definition FallbackDefaults :: "Config opt_fn" where
  "FallbackDefaults cfg = run_defaults defaults cfg"

text \<open>The configuration part of \<open>New\<close>: the user's options, then the defaults, on a zero value.\<close>

definition New_config :: "Config opt_fn option list \<Rightarrow> err \<times> Config" where
  "New_config opts = Config_Apply (opts @ [Some FallbackDefaults]) zero_Config"

text \<open>What the defaults amount to, field by field.\<close>

definition fill_defaults :: "Config \<Rightarrow> Config" where
  "fill_defaults cfg = cfg\<lparr>
     Ctx := Some (case Ctx cfg of None \<Rightarrow> Background | Some c \<Rightarrow> c),
     Networkid := Some (case Networkid cfg of None \<Rightarrow> 111 | Some n \<Rightarrow> n),
     BootstrapPeriod := (if BootstrapPeriod cfg = 0 then 45 else BootstrapPeriod cfg),
     Loglevel := (if Loglevel cfg = 0 then 3 else Loglevel cfg),
     ConnLow := (if ConnLow cfg = 0 then 50 else ConnLow cfg),
     ConnHi := (if ConnHi cfg = 0 then 200 else ConnHi cfg)\<rparr>"

definition no_identity :: "Config \<Rightarrow> bool" where
  "no_identity cfg \<longleftrightarrow> PrivKey cfg = None \<and> Homedir cfg = []"

lemma run_default_step:
  "run_defaults ((fb, \<lambda>cfg. (None, g cfg)) # ds) cfg = run_defaults ds (if fb cfg then g cfg else cfg)"
  by (simp add: Config_Apply_def)

lemma run_default_error:
  "run_defaults [(fb, \<lambda>cfg. (Some e, cfg))] cfg = (if fb cfg then Some e else None, cfg)"
  by (simp add: Config_Apply_def)

text \<open>
  C28: the loop over the fallback table computes the field-wise specification: it fills exactly the
  unset fields, keeps every value the user chose, and fails exactly when neither a private key nor a
  home directory is given (the filled configuration is returned in both cases).
\<close>

theorem FallbackDefaults_spec:
  "FallbackDefaults cfg =
     (if no_identity cfg then Some ''privateKey and homedir both empty'' else None, fill_defaults cfg)"
  unfolding FallbackDefaults_def defaults_def run_default_step run_default_error
  by (cases cfg) (auto simp: fill_defaults_def no_identity_def split: option.splits)

lemma fill_defaults_idem [simp]: "fill_defaults (fill_defaults cfg) = fill_defaults cfg"
  by (simp add: fill_defaults_def)

lemma no_identity_fill [simp]: "no_identity (fill_defaults cfg) = no_identity cfg"
  by (simp add: fill_defaults_def no_identity_def)

text \<open>
  \<open>New\<close> fails with the error of the first failing option, or else with the fallback's own error; it
  returns the filled configuration otherwise.
\<close>

lemma New_config_eq:
  "New_config opts =
     (case Config_Apply opts zero_Config of
        (Some e, c) \<Rightarrow> (Some e, c)
      | (None, c) \<Rightarrow>
          (if no_identity c then Some ''privateKey and homedir both empty'' else None, fill_defaults c))"
  by (simp add: New_config_def Config_Apply_def Apply_append FallbackDefaults_spec
      split: prod.splits option.splits)

text \<open>What every component may rely on in a configuration that \<open>New\<close> accepted.\<close>

definition complete_config :: "Config \<Rightarrow> bool" where
  "complete_config cfg \<longleftrightarrow>
     Ctx cfg \<noteq> None \<and> Networkid cfg \<noteq> None \<and> BootstrapPeriod cfg \<noteq> 0 \<and> Loglevel cfg \<noteq> 0 \<and>
     ConnLow cfg \<noteq> 0 \<and> ConnHi cfg \<noteq> 0 \<and> \<not> no_identity cfg"

text \<open>
  Whatever options are given, in whatever order and with whatever option functions, a
  configuration that \<open>New\<close> accepts is complete.
\<close>

theorem New_config_complete:
  assumes "New_config opts = (None, cfg)"
  shows "complete_config cfg"
proof -
  obtain c where "cfg = fill_defaults c" and "\<not> no_identity c"
    using assms by (auto simp: New_config_eq split: prod.splits option.splits if_splits)
  then show ?thesis
    by (simp add: complete_config_def) (simp add: fill_defaults_def)
qed

theorem New_config_complete_witness:
  "complete_config (snd (New_config [Some (Opt_Homedir ''/tmp''), None, Some (Opt_Network 4001 0 0)]))"
proof -
  have "New_config [Some (Opt_Homedir ''/tmp''), None, Some (Opt_Network 4001 0 0)] =
    (None, snd (New_config [Some (Opt_Homedir ''/tmp''), None, Some (Opt_Network 4001 0 0)]))"
    by (simp add: New_config_eq Config_Apply_def opt_defs no_identity_def zero_Config_def)
  then show ?thesis by (rule New_config_complete)
qed

text \<open>
  \<open>Network\<close> always sets a network id, so the default id 111 is never used after it: \<open>networkid = 0\<close>
  selects network 0.
\<close>

lemma Network_overrides_default:
  "Networkid (snd (FallbackDefaults (snd (Opt_Network port mux nid cfg)))) = Some (uint nid)"
  by (auto simp: FallbackDefaults_spec fill_defaults_def Opt_Network_def Let_def word_gt_0)

text \<open>The size option never stores less than one megabyte, and stores every larger size as it is.\<close>

lemma Opt_MaxMsgSize_eq: "Opt_MaxMsgSize sz cfg = (None, cfg\<lparr>MaxMsgSize := max (1024 * 1024) sz\<rparr>)"
  by (simp add: Opt_MaxMsgSize_def Let_def max_def)

subsection \<open>TopicConfig\<close>

text \<open>A pubsub validator decides on the author, the forwarding peer and the payload.\<close>

type_synonym PubsubValdator = "string \<Rightarrow> string \<Rightarrow> byte list \<Rightarrow> bool"

record TopicConfig =
  throttle :: int
  timeout :: int
  inline :: bool
  valdator :: "PubsubValdator option"

definition TopicConfig_Apply :: "TopicConfig opt_fn option list \<Rightarrow> TopicConfig \<Rightarrow> err \<times> TopicConfig" where
  "TopicConfig_Apply opts cfg = Apply opts cfg"

definition Opt_WithValidator :: "PubsubValdator option \<Rightarrow> TopicConfig opt_fn" where
  "Opt_WithValidator v cfg = (None, cfg\<lparr>valdator := v\<rparr>)"

subsection \<open>The private network's key\<close>

definition PSK_header :: string where
  "PSK_header = ''/key/swarm/psk/1.0.0/'' @ [CHR 0x0A] @ ''/base16/'' @ [CHR 0x0A]"

definition psk_text :: "int \<Rightarrow> string" where
  "psk_text networkid =
     PSK_header @ hex_EncodeToString (sha256_Sum (nat_to_bytes (nat \<bar>networkid\<bar>)))"

text \<open>
  \<open>pnet.DecodeV1PSK\<close> is libp2p's; it is the argument \<open>decode\<close>, an error or a key. The result is
  the option that \<open>libp2p.PrivateNetwork\<close> makes of the key.
\<close>

definition ProtectorOpt :: "(string \<Rightarrow> string + 'psk) \<Rightarrow> Config \<Rightarrow> string + 'psk" where
  "ProtectorOpt decode cfg =
     (case Networkid cfg of
        Some networkid \<Rightarrow> (case decode (psk_text networkid) of Inl e \<Rightarrow> Inl e | Inr psk \<Rightarrow> Inr psk)
      | None \<Rightarrow> Inl ''disable psk'')"

text \<open>
  Two network ids give the same key text exactly when their magnitudes have the same SHA-256
  digest: the rendering loses nothing, and a sign is ignored.
\<close>

theorem psk_text_eq_iff:
  "psk_text m = psk_text n \<longleftrightarrow>
     sha256_Sum (nat_to_bytes (nat \<bar>m\<bar>)) = sha256_Sum (nat_to_bytes (nat \<bar>n\<bar>))"
  by (simp add: psk_text_def hex.enc_eq_iff)

text \<open>The text has the shape the decoder expects: the two header lines and 64 hexadecimal digits.\<close>

lemma length_psk_text: "length (psk_text n) = length PSK_header + 64"
  by (simp add: psk_text_def length_hex)

lemma ProtectorOpt_Some: "Networkid cfg = Some n \<Longrightarrow> ProtectorOpt decode cfg = decode (psk_text n)"
  by (cases "decode (psk_text n)") (simp_all add: ProtectorOpt_def)

lemma ProtectorOpt_New:
  assumes "New_config opts = (None, cfg)"
  shows "\<exists>n. ProtectorOpt decode cfg = decode (psk_text n)"
proof -
  have "\<exists>n. Networkid cfg = Some n"
    using assms by (auto simp: New_config_eq fill_defaults_def split: prod.splits option.splits if_splits)
  then show ?thesis using ProtectorOpt_Some by blast
qed

subsection \<open>The yamux transport\<close>

datatype LogOutput = Stderr | Discard

text \<open>Durations are in nanoseconds, as in \<open>time.Duration\<close>.\<close>

record yamux_Transport =
  AcceptBacklog :: int
  EnableKeepAlive :: bool
  KeepAliveInterval :: int
  ConnectionWriteTimeout :: int
  MaxStreamWindowSize :: "32 word"
  ReadBufSize :: int
  MaxMessageSize :: int
  WriteCoalesceDelay :: int
  LogOutput :: LogOutput

text \<open>The chain of muxers: a protocol id with yamux's settings, or mplex's defaults.\<close>

datatype Muxer = Yamux string yamux_Transport | MplexDefault string

definition MuxTransportOption :: "int \<Rightarrow> Muxer list" where
  "MuxTransportOption loglevel =
     [Yamux ''/yamux/1.0.0''
        \<lparr>AcceptBacklog = 256, EnableKeepAlive = True, KeepAliveInterval = 45 * 1000000000,
         ConnectionWriteTimeout = 45 * 1000000000, MaxStreamWindowSize = 256 * 1024,
         ReadBufSize = 4096, MaxMessageSize = 128 * 1024, WriteCoalesceDelay = 100 * 1000,
         LogOutput = (if loglevel \<in> {3, 4, 5} then Stderr else Discard)\<rparr>,
      MplexDefault ''/mplex/6.7.0'']"

end
