(* ===== verification/Keys.thy ===== *)
theory Keys
  imports Config LruCache
begin

text \<open>
  Peer identities of \<open>funcs.go\<close>: the conversions between libp2p public keys and ECDSA keys, the cached
  extraction of a key from a peer id, and the textual form of a key. libp2p's own functions
  (\<open>peer.Decode\<close>, \<open>ID.Pretty\<close>, \<open>ID.ExtractPublicKey\<close>, \<open>peer.IDFromPublicKey\<close>) are parameters.
\<close>

record PublicKey =
  pubX :: int
  pubY :: int

text \<open>A libp2p public key: secp256k1, or a key of another type (RSA, Ed25519, ...).\<close>

datatype PubKey = Secp256k1PublicKey PublicKey | OtherPublicKey string

text \<open>
  The checked conversion \<open>pk.(*crypto.Secp256k1PublicKey)\<close> panics on a nil interface and on a key of
  another type.
\<close>

definition pubkeyToEcdsa :: "PubKey option \<Rightarrow> PublicKey outcome" where
  "pubkeyToEcdsa pk =
     (case pk of
        Some (Secp256k1PublicKey k) \<Rightarrow> Return k
      | Some (OtherPublicKey t) \<Rightarrow> Panic (''interface conversion: not secp256k1: '' @ t)
      | None \<Rightarrow> Panic ''interface conversion: interface is nil'')"

definition ecdsaToPubkey :: "PublicKey \<Rightarrow> PubKey" where
  "ecdsaToPubkey pk = Secp256k1PublicKey pk"

text \<open>The parameters: what the code calls of libp2p's \<open>peer\<close> package, over its type of ids.\<close>

record 'id peer_pkg =
  peer_Decode :: "string \<Rightarrow> string + 'id"
  ID_Pretty :: "'id \<Rightarrow> string"
  ID_ExtractPublicKey :: "'id \<Rightarrow> string + PubKey"
  IDFromPublicKey :: "PubKey \<Rightarrow> 'id \<times> err"

text \<open>\<open>pubkeyCache\<close> is a package variable; it is passed along as the state \<open>c\<close>.\<close>

definition id2pubkey :: "('c, 'id, PubKey) lru_ops \<Rightarrow> 'id peer_pkg \<Rightarrow> 'id \<Rightarrow> 'c \<Rightarrow> (string + PubKey) \<times> 'c" where
  "id2pubkey C pp i c =
     (case lru_Get C c i of
        (Some v, c1) \<Rightarrow> (Inr v, c1)
      | (None, c1) \<Rightarrow>
          (case ID_ExtractPublicKey pp i of
             Inl e \<Rightarrow> (Inl e, c1)
           | Inr k \<Rightarrow> (Inr k, lru_Add C c1 i k)))"

text \<open>\<open>pk, _ = id2pubkey(...)\<close>: the callers that ignore the error go on with a nil key.\<close>

definition id2pubkey_nil :: "('c, 'id, PubKey) lru_ops \<Rightarrow> 'id peer_pkg \<Rightarrow> 'id \<Rightarrow> 'c \<Rightarrow> PubKey option \<times> 'c" where
  "id2pubkey_nil C pp i c =
     (case id2pubkey C pp i c of (Inl e, c1) \<Rightarrow> (None, c1) | (Inr k, c1) \<Rightarrow> (Some k, c1))"

definition ECDSAPubEncode :: "'id peer_pkg \<Rightarrow> PublicKey \<Rightarrow> string \<times> err" where
  "ECDSAPubEncode pp pk =
     (let (i, e) = IDFromPublicKey pp (ecdsaToPubkey pk) in (ID_Pretty pp i, e))"

definition ECDSAPubDecode :: "('c, 'id, PubKey) lru_ops \<Rightarrow> 'id peer_pkg \<Rightarrow> string \<Rightarrow> 'c \<Rightarrow>
    ((string + PublicKey) \<times> 'c) outcome" where
  "ECDSAPubDecode C pp pk c =
     (case peer_Decode pp pk of
        Inl e \<Rightarrow> Return (Inl e, c)
      | Inr i \<Rightarrow>
          (case id2pubkey C pp i c of
             (Inl e, c1) \<Rightarrow> Return (Inl e, c1)
           | (Inr pub, c1) \<Rightarrow> bind_outcome (pubkeyToEcdsa (Some pub)) (\<lambda>k. Return (Inr k, c1))))"

subsection \<open>The cache is transparent\<close>

definition extracted :: "'id peer_pkg \<Rightarrow> 'id \<Rightarrow> PubKey option" where
  "extracted pp i = (case ID_ExtractPublicKey pp i of Inl _ \<Rightarrow> None | Inr k \<Rightarrow> Some k)"

lemma id2pubkey_spec:
  assumes laws: "lru_laws C ct" and ok: "memo_ok ct (extracted pp) c"
  shows "fst (id2pubkey C pp i c) = ID_ExtractPublicKey pp i"
    and "memo_ok ct (extracted pp) (snd (id2pubkey C pp i c))"
proof -
  obtain x c1 where get: "lru_Get C c i = (x, c1)" by fastforce
  note G = memo_ok_Get [OF laws ok get]
  have hit: "ID_ExtractPublicKey pp i = Inr v" if "x = Some v" for v
    using G that by (auto simp: extracted_def split: sum.splits)
  show "fst (id2pubkey C pp i c) = ID_ExtractPublicKey pp i"
    using hit by (auto simp: id2pubkey_def get split: option.split sum.split)
  have "memo_ok ct (extracted pp) (lru_Add C c1 i k)" if "ID_ExtractPublicKey pp i = Inr k" for k
    using G that by (intro memo_ok_Add [OF laws]) (simp_all add: extracted_def)
  then show "memo_ok ct (extracted pp) (snd (id2pubkey C pp i c))"
    using G by (auto simp: id2pubkey_def get split: option.split sum.split)
qed

lemma id2pubkey_nil_spec:
  "lru_laws C ct \<Longrightarrow> memo_ok ct (extracted pp) c \<Longrightarrow>
   fst (id2pubkey_nil C pp i c) = extracted pp i \<and> memo_ok ct (extracted pp) (snd (id2pubkey_nil C pp i c))"
  using id2pubkey_spec [of C ct pp c i]
  by (auto simp: id2pubkey_nil_def extracted_def split: prod.splits sum.splits)

lemma pubkeyToEcdsa_inverse [simp]: "pubkeyToEcdsa (Some (ecdsaToPubkey k)) = Return k"
  by (simp add: pubkeyToEcdsa_def ecdsaToPubkey_def)

subsection \<open>Properties\<close>

text \<open>
  C29: the textual form of an ECDSA key decodes to the key, with a warm or a cold cache. The hypotheses
  are libp2p's own round trips for this key: its id is computed without error, prints and parses back,
  and embeds the key; and the cache holds only extracted keys.
\<close>

theorem ECDSAPub_roundtrip:
  assumes "IDFromPublicKey pp (ecdsaToPubkey k) = (i, None)" and "peer_Decode pp (ID_Pretty pp i) = Inr i"
    and "ID_ExtractPublicKey pp i = Inr (ecdsaToPubkey k)"
    and "lru_laws C ct" and "memo_ok ct (extracted pp) c"
  shows "snd (ECDSAPubEncode pp k) = None \<and>
     (\<exists>c'. ECDSAPubDecode C pp (fst (ECDSAPubEncode pp k)) c = Return (Inr k, c') \<and> memo_ok ct (extracted pp) c')"
proof -
  obtain c1 where "id2pubkey C pp i c = (Inr (ecdsaToPubkey k), c1)" and "memo_ok ct (extracted pp) c1"
    using id2pubkey_spec [OF assms(4,5), of i] assms(3) by (metis prod.collapse)
  with assms(1,2) show ?thesis by (simp add: ECDSAPubEncode_def ECDSAPubDecode_def)
qed

definition ex_peer_pkg :: "string peer_pkg" where
  "ex_peer_pkg = \<lparr>peer_Decode = (\<lambda>s. if s = ''16Uiu2'' then Inr ''id'' else Inl ''bad id''),
     ID_Pretty = (\<lambda>_. ''16Uiu2''), ID_ExtractPublicKey = (\<lambda>_. Inr (ecdsaToPubkey \<lparr>pubX = 3, pubY = 5\<rparr>)),
     IDFromPublicKey = (\<lambda>_. (''id'', None))\<rparr>"

theorem ECDSAPub_roundtrip_witness:
  "\<exists>c'. ECDSAPubDecode fifo_lru ex_peer_pkg (fst (ECDSAPubEncode ex_peer_pkg \<lparr>pubX = 3, pubY = 5\<rparr>))
      (lru_New fifo_lru 10000) = Return (Inr \<lparr>pubX = 3, pubY = 5\<rparr>, c')"
  by (rule ECDSAPub_roundtrip [of ex_peer_pkg "\<lparr>pubX = 3, pubY = 5\<rparr>" "''id''", OF _ _ _ fifo_lru_laws
      memo_ok_New [OF fifo_lru_laws, where n = 10000], THEN conjunct2, THEN exE])
    (auto simp: ex_peer_pkg_def)

text \<open>
  Decoding the textual form of a peer id panics exactly when the id parses, its key can be
  extracted, and the key is not secp256k1: the caller gets no error value in that case.
\<close>

theorem ECDSAPubDecode_panics_iff:
  assumes "lru_laws C ct" and "memo_ok ct (extracted pp) c"
  shows "(\<exists>m. ECDSAPubDecode C pp s c = Panic m) \<longleftrightarrow>
    (\<exists>i t. peer_Decode pp s = Inr i \<and> ID_ExtractPublicKey pp i = Inr (OtherPublicKey t))"
proof (cases "peer_Decode pp s")
  case (Inl e)
  then show ?thesis by (simp add: ECDSAPubDecode_def)
next
  case (Inr i)
  obtain x c1 where x: "id2pubkey C pp i c = (x, c1)" by fastforce
  with id2pubkey_spec(1) [OF assms, of i] have "x = ID_ExtractPublicKey pp i" by simp
  then show ?thesis
    by (auto simp: ECDSAPubDecode_def Inr x pubkeyToEcdsa_def split: sum.split PubKey.split)
qed

theorem ECDSAPubDecode_panics_iff_witness:
  "\<exists>m. ECDSAPubDecode fifo_lru (ex_peer_pkg\<lparr>ID_ExtractPublicKey := (\<lambda>_. Inr (OtherPublicKey ''Ed25519''))\<rparr>)
     ''16Uiu2'' (lru_New fifo_lru 10000) = Panic m"
proof (rule ECDSAPubDecode_panics_iff [OF fifo_lru_laws memo_ok_New [OF fifo_lru_laws], THEN iffD2])
  show "\<exists>i t. peer_Decode (ex_peer_pkg\<lparr>ID_ExtractPublicKey := (\<lambda>_. Inr (OtherPublicKey ''Ed25519''))\<rparr>) ''16Uiu2'' = Inr i \<and>
    ID_ExtractPublicKey (ex_peer_pkg\<lparr>ID_ExtractPublicKey := (\<lambda>_. Inr (OtherPublicKey ''Ed25519''))\<rparr>) i = Inr (OtherPublicKey t)"
    by (simp add: ex_peer_pkg_def)
qed

end
