(* ===== verification/Peers.thy ===== *)
theory Peers
  imports Keys
begin

text \<open>
  What the service tells about its connections and known peers, \<open>impl.go\<close>: the lists of direct and relayed
  peers are computed from the texts of the connections' addresses by splitting strings. The host's
  connections are a list, in the order in which \<open>Conns\<close> returned them; \<open>enc\<close> is the text of an
  encapsulated multiaddress, go-multiaddr's operation.
\<close>

subsection \<open>Connections\<close>

record conn =
  c_RemotePeer :: string
  c_RemoteAddr :: string
  c_LocalAddr :: string
  c_Direction :: Direction

definition conn_text :: "(string \<Rightarrow> string \<Rightarrow> string) \<Rightarrow> conn \<Rightarrow> string" where
  "conn_text enc c = enc (c_RemoteAddr c) (''/p2p/'' @ c_RemotePeer c)"

fun conns_loop :: "(string \<Rightarrow> string \<Rightarrow> string) \<Rightarrow> conn list \<Rightarrow> string list \<times> string list \<Rightarrow> string list \<times> string list" where
  "conns_loop enc [] acc = acc"
| "conns_loop enc (c # cs) (direct, relay) =
     (let taddr = conn_text enc c in
      if strings_Contains taddr ''p2p-circuit'' then conns_loop enc cs (direct, relay @ [taddr])
      else conns_loop enc cs (direct @ [taddr], relay))"

definition Conns :: "(string \<Rightarrow> string \<Rightarrow> string) \<Rightarrow> conn list \<Rightarrow> string list \<times> string list" where
  "Conns enc cs = conns_loop enc cs ([], [])"

definition isDirectFn :: "(string \<Rightarrow> string \<Rightarrow> string) \<Rightarrow> conn list \<Rightarrow> string \<Rightarrow> bool" where
  "isDirectFn enc cs i = list_ex (\<lambda>url. strings_Contains url i) (fst (Conns enc cs))"

definition conn_session :: "conn \<Rightarrow> string" where
  "conn_session c = ''session:'' @ c_RemoteAddr c @ c_LocalAddr c"

text \<open>The named results keep their values from one iteration to the next; an unknown direction keeps \<open>inbound\<close>.\<close>

fun session_loop :: "string \<Rightarrow> conn list \<Rightarrow> string \<times> bool \<times> err \<Rightarrow> string \<times> bool \<times> err" where
  "session_loop i [] r = r"
| "session_loop i (c # cs) (session, inbound, e) =
     (if strings_Contains i (c_RemotePeer c) then
        session_loop i cs
          (conn_session c,
           (case c_Direction c of DirInbound \<Rightarrow> True | DirOutbound \<Rightarrow> False | DirUnknown \<Rightarrow> inbound),
           None)
      else session_loop i cs (session, inbound, e))"

definition GetSession :: "string \<Rightarrow> conn list \<Rightarrow> string \<times> bool \<times> err" where
  "GetSession i cs = session_loop i cs ('''', False, Some (''getsession fail : '' @ i @ '' not found.''))"

subsection \<open>Peers\<close>

type_synonym 'k groups = "('k \<times> 'k list) list"

definition add_group :: "'k \<Rightarrow> 'k \<Rightarrow> 'k groups \<Rightarrow> 'k groups" where
  "add_group f t g = AList.update f ((case map_of g f of None \<Rightarrow> [] | Some l \<Rightarrow> l) @ [t]) g"

fun peers_direct :: "string list \<Rightarrow> string list \<times> int \<Rightarrow> (string list \<times> int) outcome" where
  "peers_direct [] r = Return r"
| "peers_direct (d # ds) (direct, tot) =
     bind_outcome (index_at (strings_Split d ''/p2p/'') 1) (\<lambda>i. peers_direct ds (direct @ [i], tot + 1))"

fun peers_relay :: "string list \<Rightarrow> string groups \<times> int \<Rightarrow> (string groups \<times> int) outcome" where
  "peers_relay [] r = Return r"
| "peers_relay (r # rs) (relay, tot) =
     (let arr = strings_Split r ''/p2p-circuit'' in
      bind_outcome (index_at arr 0) (\<lambda>f. bind_outcome (index_at arr 1) (\<lambda>t.
      bind_outcome (index_at (strings_Split f ''/p2p/'') 1) (\<lambda>fi.
      bind_outcome (index_at (strings_Split t ''/p2p/'') 1) (\<lambda>ti.
        peers_relay rs (add_group fi ti relay, tot + 1))))))"

definition Peers :: "(string \<Rightarrow> string \<Rightarrow> string) \<Rightarrow> conn list \<Rightarrow> (string list \<times> string groups \<times> int) outcome" where
  "Peers enc cs =
     (let (dl, rl) = Conns enc cs in
      bind_outcome (peers_direct dl ([], 0)) (\<lambda>(direct, tot).
      bind_outcome (peers_relay rl ([], tot)) (\<lambda>(relay, tot).
        Return (direct, relay, tot))))"

subsection \<open>PeersWithDirection\<close>

fun pwd_loop :: "(string \<Rightarrow> string \<Rightarrow> string) \<Rightarrow> conn list \<Rightarrow> PeerDirection list \<times> PeerDirection list \<times> int \<Rightarrow>
    PeerDirection list \<times> PeerDirection list \<times> int" where
  "pwd_loop enc [] r = r"
| "pwd_loop enc (c # cs) (rl, direct, tot) =
     (let taddr = conn_text enc c in
      if strings_Contains taddr ''p2p-circuit''
      then pwd_loop enc cs (rl @ [NewPeerDirection taddr (c_Direction c)], direct, tot)
      else pwd_loop enc cs (rl, direct @ [NewPeerDirection (c_RemotePeer c) (c_Direction c)], tot + 1))"

fun pwd_relay :: "PeerDirection list \<Rightarrow> PeerDirection groups \<times> int \<Rightarrow> (PeerDirection groups \<times> int) outcome" where
  "pwd_relay [] r = Return r"
| "pwd_relay (r # rs) (relay, tot) =
     (let arr = strings_Split (PeerDirection_ID r) ''/p2p-circuit''; d = PeerDirection_Direction r in
      bind_outcome (index_at arr 0) (\<lambda>a0. bind_outcome (slice_from a0 6) (\<lambda>f.
      bind_outcome (index_at arr 1) (\<lambda>a1. bind_outcome (slice_from a1 6) (\<lambda>t.
        pwd_relay rs (add_group (NewPeerDirection f d) (NewPeerDirection t d) relay, tot + 1))))))"

definition PeersWithDirection :: "(string \<Rightarrow> string \<Rightarrow> string) \<Rightarrow> conn list \<Rightarrow>
    (PeerDirection list \<times> PeerDirection groups \<times> int) outcome" where
  "PeersWithDirection enc cs =
     (let (rl, direct, tot) = pwd_loop enc cs ([], [], 0) in
      bind_outcome (pwd_relay rl ([], tot)) (\<lambda>(relay, tot). Return (direct, relay, tot)))"

subsection \<open>Address books\<close>

text \<open>\<open>Table\<close> and \<open>Myid\<close> over the peer store's peers with their addresses, and the host's own addresses.\<close>

fun Table :: "(string \<times> string list) list \<Rightarrow> (string \<times> string list) list \<Rightarrow> (string \<times> string list) list" where
  "Table [] r = r"
| "Table ((p, addrs) # ps) r = Table ps (AList.update p addrs r)"

definition no_circuit :: "string list \<Rightarrow> string list" where
  "no_circuit addrs = filter (\<lambda>a. \<not> strings_Contains a ''/p2p-circuit'') addrs"

definition Myid :: "string \<Rightarrow> string list \<Rightarrow> string \<times> string list" where
  "Myid i addrs = (i, no_circuit addrs)"

text \<open>The lookups that first parse the peer id: \<open>look\<close> is the peer store's or the router's own answer.\<close>

definition with_peer :: "string peer_pkg \<Rightarrow> string \<Rightarrow> (string \<Rightarrow> string + 'a) \<Rightarrow> string + 'a" where
  "with_peer pp i look = (case peer_Decode pp i of Inl e \<Rightarrow> Inl e | Inr p \<Rightarrow> look p)"

definition Addrs :: "string peer_pkg \<Rightarrow> (string \<Rightarrow> string list) \<Rightarrow> string \<Rightarrow> string + string list" where
  "Addrs pp addrs i = with_peer pp i (\<lambda>p. Inr (addrs p))"

definition findpeer :: "string peer_pkg \<Rightarrow> (string \<Rightarrow> string + 'info) \<Rightarrow> string \<Rightarrow> string + 'info" where
  "findpeer pp FindPeer i = with_peer pp i FindPeer"

definition Findpeer :: "string peer_pkg \<Rightarrow> (string \<Rightarrow> string + string list) \<Rightarrow> string \<Rightarrow> string + string list" where
  "Findpeer pp FindPeer i = (case findpeer pp FindPeer i of Inl e \<Rightarrow> Inl e | Inr addrs \<Rightarrow> Inr (no_circuit addrs))"

definition GetProtocols :: "string peer_pkg \<Rightarrow> (string \<Rightarrow> string + string list) \<Rightarrow> string \<Rightarrow> string + string list" where
  "GetProtocols pp protos i = with_peer pp i protos"

definition GetPeerMeta :: "string peer_pkg \<Rightarrow> (string \<Rightarrow> string \<Rightarrow> string + 'v) \<Rightarrow> string \<Rightarrow> string \<Rightarrow> string + 'v" where
  "GetPeerMeta pp peerstore_Get i key = with_peer pp i (\<lambda>p. peerstore_Get p key)"

text \<open>Operations on the peer store and the connection manager, states of libp2p, after the same parse.\<close>

definition PutPeerMeta :: "string peer_pkg \<Rightarrow> (string \<Rightarrow> string \<Rightarrow> 'v \<Rightarrow> 'ps \<Rightarrow> err \<times> 'ps) \<Rightarrow> string \<Rightarrow> string \<Rightarrow> 'v \<Rightarrow>
    'ps \<Rightarrow> err \<times> 'ps" where
  "PutPeerMeta pp peerstore_Put i key v ps =
     (case peer_Decode pp i of Inl e \<Rightarrow> (Some e, ps) | Inr p \<Rightarrow> peerstore_Put p key v ps)"

definition Protect :: "string peer_pkg \<Rightarrow> (string \<Rightarrow> string \<Rightarrow> 'cm \<Rightarrow> 'cm) \<Rightarrow> string \<Rightarrow> string \<Rightarrow> 'cm \<Rightarrow> err \<times> 'cm" where
  "Protect pp cm_Protect i tag cm =
     (case peer_Decode pp i of Inl e \<Rightarrow> (Some e, cm) | Inr p \<Rightarrow> (None, cm_Protect p tag cm))"

definition Unprotect :: "string peer_pkg \<Rightarrow> (string \<Rightarrow> string \<Rightarrow> 'cm \<Rightarrow> bool \<times> 'cm) \<Rightarrow> string \<Rightarrow> string \<Rightarrow> 'cm \<Rightarrow>
    (bool \<times> err) \<times> 'cm" where
  "Unprotect pp cm_Unprotect i tag cm =
     (case peer_Decode pp i of Inl e \<Rightarrow> ((False, Some e), cm)
      | Inr p \<Rightarrow> (case cm_Unprotect p tag cm of (b, cm') \<Rightarrow> ((b, None), cm')))"

text \<open>\<open>ClosePeer\<close> goes through the key's text and back; \<open>net_ClosePeer\<close> is the network's answer.\<close>

definition ClosePeer :: "string peer_pkg \<Rightarrow> (string \<Rightarrow> 'nw \<Rightarrow> err \<times> 'nw) \<Rightarrow> PublicKey \<Rightarrow> 'nw \<Rightarrow> err \<times> 'nw" where
  "ClosePeer pp net_ClosePeer pubkey nw =
     (case ECDSAPubEncode pp pubkey of
        (_, Some e) \<Rightarrow> (Some e, nw)
      | (i, None) \<Rightarrow>
          (case peer_Decode pp i of Inl e \<Rightarrow> (Some e, nw) | Inr p \<Rightarrow> net_ClosePeer p nw))"

text \<open>The DHT keys live in one namespace.\<close>

definition dht_key :: "string \<Rightarrow> string" where
  "dht_key k = ''/'' @ ''cc14514'' @ ''/'' @ k"

definition DHT_Put :: "(string \<Rightarrow> 'v \<Rightarrow> 'r \<Rightarrow> err \<times> 'r) \<Rightarrow> string \<Rightarrow> 'v \<Rightarrow> 'r \<Rightarrow> err \<times> 'r" where
  "DHT_Put router_PutValue k v r = router_PutValue (dht_key k) v r"

definition DHT_Get :: "(string \<Rightarrow> string + 'v) \<Rightarrow> string \<Rightarrow> string + 'v" where
  "DHT_Get router_GetValue k = router_GetValue (dht_key k)"

end
