(* ===== verification/PeersSpec.thy ===== *)
theory PeersSpec
  imports Peers
begin

text \<open>
  The lists of \<open>Peers\<close>, \<open>PeersWithDirection\<close> and \<open>GetSession\<close> against the connections they are computed
  from. The texts of multiaddresses are described by what the splitting needs: the address part of a
  direct connection has no peer in it, that of a relayed one ends in the relay's id and the circuit.
\<close>

subsection \<open>Splitting address texts\<close>

lemma split_p2p:
  assumes "\<not> strings_Contains (a @ ''/p2p'') ''/p2p/''" and "CHR ''/'' \<notin> set i"
  shows "strings_Split (a @ ''/p2p/'' @ i) ''/p2p/'' = [a, i]"
  using assms Split_first [of "''/p2p/''" a i] not_Contains_char [of "CHR ''/''" "''/p2p/''" i] by simp

lemma split_circuit:
  assumes "\<not> strings_Contains (x @ ''/p2p-circui'') ''/p2p-circuit''" and "CHR ''-'' \<notin> set i"
  shows "strings_Split (x @ ''/p2p-circuit'' @ i) ''/p2p-circuit'' = [x, i]"
  using assms Split_first [of "''/p2p-circuit''" x i] not_Contains_char [of "CHR ''-''" "''/p2p-circuit''" i] by simp

lemma conns_loop_eq:
  "conns_loop enc cs (d, r) =
     (d @ filter (\<lambda>t. \<not> strings_Contains t ''p2p-circuit'') (map (conn_text enc) cs),
      r @ filter (\<lambda>t. strings_Contains t ''p2p-circuit'') (map (conn_text enc) cs))"
  by (induction cs arbitrary: d r) (simp_all add: Let_def)

lemma Conns_eq:
  "Conns enc cs =
     (filter (\<lambda>t. \<not> strings_Contains t ''p2p-circuit'') (map (conn_text enc) cs),
      filter (\<lambda>t. strings_Contains t ''p2p-circuit'') (map (conn_text enc) cs))"
  by (simp add: Conns_def conns_loop_eq)

subsection \<open>Well-formed connections\<close>

definition conn_direct :: "conn \<Rightarrow> bool" where
  "conn_direct c \<longleftrightarrow>
     \<not> strings_Contains (c_RemoteAddr c @ ''/p2p/'' @ c_RemotePeer c) ''p2p-circuit'' \<and>
     \<not> strings_Contains (c_RemoteAddr c @ ''/p2p'') ''/p2p/'' \<and> CHR ''/'' \<notin> set (c_RemotePeer c)"

definition conn_via :: "string \<Rightarrow> string \<Rightarrow> conn \<Rightarrow> bool" where
  "conn_via a f c \<longleftrightarrow>
     c_RemoteAddr c = a @ ''/p2p/'' @ f @ ''/p2p-circuit'' \<and>
     \<not> strings_Contains (a @ ''/p2p'') ''/p2p/'' \<and> CHR ''/'' \<notin> set f \<and>
     \<not> strings_Contains (a @ ''/p2p/'' @ f @ ''/p2p-circui'') ''/p2p-circuit'' \<and>
     CHR ''/'' \<notin> set (c_RemotePeer c) \<and> CHR ''-'' \<notin> set (c_RemotePeer c)"

text \<open>A classification of connections: direct, or through the relay \<open>f\<close> at the address \<open>a\<close>.\<close>

definition classified :: "(conn \<Rightarrow> (string \<times> string) option) \<Rightarrow> conn list \<Rightarrow> bool" where
  "classified via cs \<longleftrightarrow> (\<forall>c \<in> set cs. case via c of None \<Rightarrow> conn_direct c | Some (a, f) \<Rightarrow> conn_via a f c)"

definition encapsulates :: "(string \<Rightarrow> string \<Rightarrow> string) \<Rightarrow> bool" where
  "encapsulates enc \<longleftrightarrow> (\<forall>a b. enc a b = a @ b)"

lemma classified_circuit:
  assumes "encapsulates enc" and "classified via cs" and "c \<in> set cs"
  shows "strings_Contains (conn_text enc c) ''p2p-circuit'' \<longleftrightarrow> via c \<noteq> None"
proof (cases "via c")
  case None
  then show ?thesis using assms by (auto simp: classified_def conn_direct_def conn_text_def encapsulates_def)
next
  case (Some af)
  then obtain a f where "conn_via a f c" using assms by (cases af) (auto simp: classified_def)
  then have eq: "conn_text enc c = (a @ ''/p2p/'' @ f @ ''/'') @ ''p2p-circuit'' @ ''/p2p/'' @ c_RemotePeer c"
    using assms(1) by (simp add: conn_text_def encapsulates_def conn_via_def)
  show ?thesis unfolding eq using Some by (simp only: Contains_mid) simp
qed

lemma Conns_classified:
  assumes "encapsulates enc" and "classified via cs"
  shows "Conns enc cs = (map (conn_text enc) (filter (\<lambda>c. via c = None) cs),
    map (conn_text enc) (filter (\<lambda>c. via c \<noteq> None) cs))"
proof -
  have "filter (\<lambda>c. strings_Contains (conn_text enc c) ''p2p-circuit'') cs = filter (\<lambda>c. via c \<noteq> None) cs"
    and "filter (\<lambda>c. \<not> strings_Contains (conn_text enc c) ''p2p-circuit'') cs = filter (\<lambda>c. via c = None) cs"
    by (rule filter_cong; simp add: classified_circuit [OF assms] del: not_None_eq)+
  then show ?thesis by (simp add: Conns_eq filter_map o_def)
qed

subsection \<open>Groups\<close>

definition group_of :: "'k groups \<Rightarrow> 'k \<Rightarrow> 'k list" where
  "group_of g k = (case map_of g k of None \<Rightarrow> [] | Some l \<Rightarrow> l)"

lemma group_of_add: "group_of (add_group f t g) k = (if k = f then group_of g k @ [t] else group_of g k)"
  by (simp add: group_of_def add_group_def map_of_update_conv split: option.split)

lemma group_of_fold:
  "group_of (fold (\<lambda>c. add_group (f c) (t c)) cs g) k = group_of g k @ map t (filter (\<lambda>c. f c = k) cs)"
  by (induction cs arbitrary: g) (simp_all add: group_of_add)

subsection \<open>The loops\<close>

lemma peers_direct_eq:
  assumes "encapsulates enc" and "\<forall>c \<in> set cs. conn_direct c"
  shows "peers_direct (map (conn_text enc) cs) (d, n) = Return (d @ map c_RemotePeer cs, n + int (length cs))"
  using assms(2)
proof (induction cs arbitrary: d n)
  case (Cons c cs)
  then have "strings_Split (conn_text enc c) ''/p2p/'' = [c_RemoteAddr c, c_RemotePeer c]"
    using assms(1) by (simp add: conn_text_def encapsulates_def conn_direct_def split_p2p [simplified])
  with Cons show ?case by simp
qed simp

lemma relay_text:
  assumes "encapsulates enc" and "conn_via a f c"
  shows "strings_Split (conn_text enc c) ''/p2p-circuit'' = [a @ ''/p2p/'' @ f, ''/p2p/'' @ c_RemotePeer c]"
  using assms split_circuit [of "a @ ''/p2p/'' @ f" "''/p2p/'' @ c_RemotePeer c"]
  by (simp add: conn_text_def encapsulates_def conn_via_def)

lemma peers_relay_eq:
  assumes "encapsulates enc" and "\<forall>c \<in> set cs. \<exists>a. via c = Some (a, r c) \<and> conn_via a (r c) c"
  shows "peers_relay (map (conn_text enc) cs) (g, n) =
    Return (fold (\<lambda>c. add_group (r c) (c_RemotePeer c)) cs g, n + int (length cs))"
  using assms(2)
proof (induction cs arbitrary: g n)
  case (Cons c cs)
  then obtain a where via: "conn_via a (r c) c" by auto
  have "strings_Split (a @ ''/p2p/'' @ r c) ''/p2p/'' = [a, r c]"
    using via by (intro split_p2p) (simp_all add: conn_via_def)
  moreover have "strings_Split (''/p2p/'' @ c_RemotePeer c) ''/p2p/'' = [[], c_RemotePeer c]"
    using via split_p2p [of "[]" "c_RemotePeer c"] by (simp add: conn_via_def hasPrefix_def)
  ultimately show ?case
    using Cons by (simp add: relay_text [OF assms(1) via] Let_def)
qed simp

lemma pwd_loop_eq:
  assumes "encapsulates enc" and "classified via cs"
  shows "pwd_loop enc cs (rl, d, n) =
    (rl @ map (\<lambda>c. NewPeerDirection (conn_text enc c) (c_Direction c)) (filter (\<lambda>c. via c \<noteq> None) cs),
     d @ map (\<lambda>c. NewPeerDirection (c_RemotePeer c) (c_Direction c)) (filter (\<lambda>c. via c = None) cs),
     n + int (length (filter (\<lambda>c. via c = None) cs)))"
  using assms(2)
proof (induction cs arbitrary: rl d n)
  case (Cons c cs)
  have "classified via cs" using Cons.prems by (simp add: classified_def)
  moreover have "strings_Contains (conn_text enc c) ''p2p-circuit'' \<longleftrightarrow> via c \<noteq> None"
    using classified_circuit [OF assms(1) Cons.prems] by simp
  ultimately show ?case
    using Cons.IH by (cases "via c = None") (simp_all add: Let_def del: not_None_eq)
qed simp

text \<open>The relay address and the peer as \<open>PeersWithDirection\<close> cuts them out of the text.\<close>

definition cut_relay :: "(conn \<Rightarrow> (string \<times> string) option) \<Rightarrow> conn \<Rightarrow> PeerDirection" where
  "cut_relay via c = (case via c of None \<Rightarrow> []
     | Some (a, f) \<Rightarrow> NewPeerDirection (drop 6 (a @ ''/p2p/'' @ f)) (c_Direction c))"

definition cut_peer :: "conn \<Rightarrow> PeerDirection" where
  "cut_peer c = NewPeerDirection (tl (c_RemotePeer c)) (c_Direction c)"

definition cuttable :: "(conn \<Rightarrow> (string \<times> string) option) \<Rightarrow> conn \<Rightarrow> bool" where
  "cuttable via c \<longleftrightarrow> c_RemotePeer c \<noteq> [] \<and> CHR ''('' \<notin> set (c_RemoteAddr c @ c_RemotePeer c) \<and>
     (case via c of None \<Rightarrow> True | Some (a, f) \<Rightarrow> a \<noteq> [])"

lemma pwd_relay_eq:
  assumes "encapsulates enc" and "\<forall>c \<in> set cs. cuttable via c \<and> (\<exists>a f. via c = Some (a, f) \<and> conn_via a f c)"
  shows "pwd_relay (map (\<lambda>c. NewPeerDirection (conn_text enc c) (c_Direction c)) cs) (g, n) =
    Return (fold (\<lambda>c. add_group (cut_relay via c) (cut_peer c)) cs g, n + int (length cs))"
  using assms(2)
proof (induction cs arbitrary: g n)
  case (Cons c cs)
  then obtain a f where via: "via c = Some (a, f)" and wf: "conn_via a f c" and cut: "cuttable via c" by auto
  have paren: "CHR ''('' \<notin> set (conn_text enc c)"
    using cut assms(1) by (auto simp: conn_text_def encapsulates_def cuttable_def)
  obtain x xs y ys where "c_RemotePeer c = x # xs" and "a = y # ys"
    using cut via by (cases "c_RemotePeer c"; cases a) (auto simp: cuttable_def)
  then show ?case
    using Cons via
    by (simp add: PeerDirection_ID_New [OF paren] PeerDirection_Direction_New [OF paren]
        relay_text [OF assms(1) wf] Let_def slice_from_def cut_relay_def cut_peer_def)
qed simp

lemma session_loop_eq:
  "\<exists>b'. session_loop i cs (s, b, e) =
     (let ms = filter (\<lambda>c. strings_Contains i (c_RemotePeer c)) cs in
      if ms = [] then (s, b, e) else (conn_session (last ms), b', None))"
proof (induction cs arbitrary: s b e)
  case (Cons c cs)
  show ?case
    using Cons.IH [of "conn_session c" "case c_Direction c of DirInbound \<Rightarrow> True | DirOutbound \<Rightarrow> False | DirUnknown \<Rightarrow> b" None]
      Cons.IH [of s b e]
    by (auto simp: Let_def)
qed simp

subsection \<open>Properties\<close>

text \<open>
  C37: on well-formed connections \<open>Peers\<close> does not panic and accounts for every connection once: the
  direct list is the peers of the direct connections, the list under each relay is the peers reached
  through it, in the order of the connections, and the total is their number.
\<close>

theorem Peers_accounts:
  assumes "encapsulates enc" and "classified via cs"
  shows "\<exists>g. Peers enc cs = Return (map c_RemotePeer (filter (\<lambda>c. via c = None) cs), g, int (length cs)) \<and>
    (\<forall>f. group_of g f = map c_RemotePeer (filter (\<lambda>c. \<exists>a. via c = Some (a, f)) cs))"
proof -
  let ?d = "filter (\<lambda>c. via c = None) cs" and ?r = "filter (\<lambda>c. via c \<noteq> None) cs"
  let ?f = "\<lambda>c. snd (the (via c))"
  have d: "\<forall>c \<in> set ?d. conn_direct c" using assms(2) by (auto simp: classified_def split: option.splits)
  have r: "\<forall>c \<in> set ?r. \<exists>a. via c = Some (a, ?f c) \<and> conn_via a (?f c) c"
    using assms(2) by (auto simp: classified_def split: option.splits)
  have len: "int (length ?d) + int (length ?r) = int (length cs)"
    using sum_length_filter_compl [of "\<lambda>c. via c = None" cs] by linarith
  have "Peers enc cs = Return (map c_RemotePeer ?d, fold (\<lambda>c. add_group (?f c) (c_RemotePeer c)) ?r [], int (length cs))"
    by (simp add: Peers_def Conns_classified [OF assms] peers_direct_eq [OF assms(1) d]
        peers_relay_eq [OF assms(1) r] len del: filter_filter not_None_eq)
  moreover have "group_of (fold (\<lambda>c. add_group (?f c) (c_RemotePeer c)) ?r []) f =
      map c_RemotePeer (filter (\<lambda>c. \<exists>a. via c = Some (a, f)) cs)" for f
    by (auto simp: group_of_fold) (auto simp: group_of_def intro!: arg_cong [where f = "map c_RemotePeer"] filter_cong)
  ultimately show ?thesis by blast
qed

definition ex_conns :: "conn list" where
  "ex_conns =
     [\<lparr>c_RemotePeer = ''QmA'', c_RemoteAddr = ''/ip4/10.0.0.2/tcp/1'', c_LocalAddr = ''/l'', c_Direction = DirInbound\<rparr>,
      \<lparr>c_RemotePeer = ''QmB'', c_RemoteAddr = ''/ip4/10.0.0.9/tcp/1/p2p/QmR/p2p-circuit'', c_LocalAddr = ''/l'', c_Direction = DirOutbound\<rparr>]"

definition ex_via :: "conn \<Rightarrow> (string \<times> string) option" where
  "ex_via c = (if c_RemotePeer c = ''QmB'' then Some (''/ip4/10.0.0.9/tcp/1'', ''QmR'') else None)"

lemma ex_conns_classified: "classified ex_via ex_conns"
  by (simp add: classified_def ex_conns_def ex_via_def conn_direct_def conn_via_def hasPrefix_def)

theorem Peers_accounts_witness:
  "\<exists>g. Peers (@) ex_conns = Return ([''QmA''], g, 2) \<and> group_of g ''QmR'' = [''QmB'']"
  using Peers_accounts [OF _ ex_conns_classified, of "(@)"]
  by (auto simp: encapsulates_def ex_conns_def ex_via_def)

text \<open>
  C38: what \<open>PeersWithDirection\<close> reports on well-formed connections: direct peers and the total are right, but
  for a relayed connection six characters are cut off where the address text has the five of
  \<open>/p2p/\<close>, so the peer's id lacks its first character, and the relay is the address text cut in its middle.
\<close>

theorem PeersWithDirection_cuts:
  assumes "encapsulates enc" and "classified via cs" and "\<forall>c \<in> set cs. cuttable via c"
  shows "\<exists>g. PeersWithDirection enc cs =
      Return (map (\<lambda>c. NewPeerDirection (c_RemotePeer c) (c_Direction c)) (filter (\<lambda>c. via c = None) cs), g, int (length cs)) \<and>
    (\<forall>k. group_of g k = map cut_peer (filter (\<lambda>c. via c \<noteq> None \<and> cut_relay via c = k) cs))"
proof -
  let ?r = "filter (\<lambda>c. via c \<noteq> None) cs"
  have r: "\<forall>c \<in> set ?r. cuttable via c \<and> (\<exists>a f. via c = Some (a, f) \<and> conn_via a f c)"
    using assms(2,3) by (auto simp: classified_def split: option.splits)
  have len: "int (length (filter (\<lambda>c. via c = None) cs)) + int (length ?r) = int (length cs)"
    using sum_length_filter_compl [of "\<lambda>c. via c = None" cs] by linarith
  have "PeersWithDirection enc cs =
      Return (map (\<lambda>c. NewPeerDirection (c_RemotePeer c) (c_Direction c)) (filter (\<lambda>c. via c = None) cs),
        fold (\<lambda>c. add_group (cut_relay via c) (cut_peer c)) ?r [], int (length cs))"
    by (simp add: PeersWithDirection_def pwd_loop_eq [OF assms(1,2)] pwd_relay_eq [OF assms(1) r] len
        del: filter_filter not_None_eq)
  moreover have "group_of (fold (\<lambda>c. add_group (cut_relay via c) (cut_peer c)) ?r []) k =
      map cut_peer (filter (\<lambda>c. via c \<noteq> None \<and> cut_relay via c = k) cs)" for k
    by (simp add: group_of_fold conj_commute del: not_None_eq) (simp add: group_of_def)
  ultimately show ?thesis by blast
qed

theorem PeersWithDirection_cuts_witness:
  "\<exists>g. PeersWithDirection (@) ex_conns = Return ([''QmA(IN)''], g, 2) \<and>
     group_of g ''0.0.0.9/tcp/1/p2p/QmR(OUT)'' = [''mB(OUT)'']"
  using PeersWithDirection_cuts [OF _ ex_conns_classified, of "(@)"]
  by (auto simp: encapsulates_def ex_conns_def ex_via_def cuttable_def cut_relay_def cut_peer_def)

text \<open>
  \<open>GetSession\<close> succeeds exactly when some connection's peer id occurs in the argument; the session is
  then that of the last such connection.
\<close>

theorem GetSession_last:
  "(let ms = filter (\<lambda>c. strings_Contains i (c_RemotePeer c)) cs; (session, _, e) = GetSession i cs in
    if ms = [] then e \<noteq> None \<and> session = [] else e = None \<and> session = conn_session (last ms))"
proof -
  define e where "e = ''getsession fail : '' @ i @ '' not found.''"
  obtain b' where "session_loop i cs ('''', False, Some e) =
     (let ms = filter (\<lambda>c. strings_Contains i (c_RemotePeer c)) cs in
      if ms = [] then ('''', False, Some e) else (conn_session (last ms), b', None))"
    using session_loop_eq by blast
  then show ?thesis unfolding GetSession_def e_def [symmetric] by (auto simp: Let_def)
qed

end
