(* ===== verification/StreamCache.thy ===== *)
theory StreamCache
  imports KeyLock Types "HOL-Library.Multiset"
begin

text \<open>
  The stream cache of \<open>pool.go\<close>: live streams filed by protocol and peer, and by session below that,
  together with the registry of the protocols that reuse streams and their per-peer locks. A stream
  that leaves the pool is handed to \<open>fullClose\<close>, which the model records in the order of the calls.
\<close>

subsection \<open>Streams and their keys\<close>

text \<open>
  A \<open>network.Stream\<close> is libp2p's; the record holds what the code reads of it: its protocol, the
  remote peer's id, the two addresses of its connection, and an identity.
\<close>

record stream =
  s_num :: nat
  s_Protocol :: string
  s_RemotePeer :: string
  s_RemoteAddr :: string
  s_LocalAddr :: string
  s_Direction :: Direction

type_synonym StreamKey = string
type_synonym SessionKey = string

definition newStreamKey :: "string \<Rightarrow> string \<Rightarrow> StreamKey" where
  "newStreamKey to protoid = protoid @ ''@'' @ to"

definition StreamKey_Id :: "StreamKey \<Rightarrow> string outcome" where
  "StreamKey_Id s = index_at (strings_Split s ''@'') 1"

definition StreamKey_Protoid :: "StreamKey \<Rightarrow> string outcome" where
  "StreamKey_Protoid s = index_at (strings_Split s ''@'') 0"

definition session_key :: "stream \<Rightarrow> SessionKey" where
  "session_key s = ''session:'' @ s_RemoteAddr s @ s_LocalAddr s"

definition newStreamSessionKey :: "stream \<Rightarrow> StreamKey \<times> SessionKey" where
  "newStreamSessionKey s = (newStreamKey (s_RemotePeer s) (s_Protocol s), session_key s)"

lemma StreamKey_Id_new: "CHR ''@'' \<notin> set protoid \<Longrightarrow> CHR ''@'' \<notin> set to \<Longrightarrow>
    StreamKey_Id (newStreamKey to protoid) = Return to"
  by (simp add: StreamKey_Id_def newStreamKey_def Split_char_first Split_char_none)

lemma StreamKey_Protoid_new: "CHR ''@'' \<notin> set protoid \<Longrightarrow>
    StreamKey_Protoid (newStreamKey to protoid) = Return protoid"
  using Split_not_Nil by (simp add: StreamKey_Protoid_def newStreamKey_def Split_char_first)

lemma newStreamKey_inject:
  assumes "CHR ''@'' \<notin> set p" and "CHR ''@'' \<notin> set p'"
  shows "newStreamKey t p = newStreamKey t' p' \<longleftrightarrow> t = t' \<and> p = p'"
proof
  assume eq: "newStreamKey t p = newStreamKey t' p'"
  have "Return p = Return p'"
    using StreamKey_Protoid_new [OF assms(1), of t] StreamKey_Protoid_new [OF assms(2), of t'] eq by simp
  with eq show "t = t' \<and> p = p'" by (simp add: newStreamKey_def)
qed simp

text \<open>No key is malformed: reading the id of a key that the cache built never panics.\<close>

lemma StreamKey_Id_Return: "\<exists>i. StreamKey_Id (newStreamKey to protoid) = Return i"
proof -
  have "strings_Contains (newStreamKey to protoid) ''@''"
    unfolding newStreamKey_def by (rule Contains_mid)
  then have "2 \<le> length (strings_Split (newStreamKey to protoid) ''@'')"
    by (intro Split_Contains_length) simp
  then show ?thesis by (simp add: StreamKey_Id_def)
qed

subsection \<open>The cache\<close>

text \<open>
  What can be registered for a protocol: the two handler types the cache knows (their code is a
  parameter of the request loop) or anything else.
\<close>

datatype 'h handler = StreamHandler 'h | StreamHandlerWithProtocol 'h | OtherHandler

text \<open>The calls of a \<open>metrics.Reporter\<close>: it has no other effect, so a reporter is the list of its calls.\<close>

datatype metric =
    LogSentMessage int
  | LogSentMessageStream int string string
  | LogRecvMessage int
  | LogRecvMessageStream int string string

record ('c, 'h) AStreamCache =
  pool :: "(StreamKey \<times> (SessionKey \<times> stream) list) list"
  reg :: "string \<rightharpoonup> 'h handler"
  kmutex :: "'c KeyMutex"
  msgc :: "metric list option"
  fullClosed :: "stream list"

definition NewAStreamCatch :: "'c lru \<Rightarrow> metric list option \<Rightarrow> ('c, 'h) AStreamCache" where
  "NewAStreamCatch L mc =
     \<lparr>pool = [], reg = Map.empty, kmutex = NewKeyMutex L (45 * 1000000000), msgc = mc, fullClosed = []\<rparr>"

definition log_metrics :: "metric list \<Rightarrow> ('c, 'h) AStreamCache \<Rightarrow> ('c, 'h) AStreamCache" where
  "log_metrics ms p = p\<lparr>msgc := map_option (\<lambda>l. l @ ms) (msgc p)\<rparr>"

text \<open>\<open>(*reuse_stream).Stream\<close> maps a nil entry to a nil stream, and \<open>fullClose\<close> ignores nil.\<close>

definition reuse_stream_Stream :: "stream option \<Rightarrow> stream option" where
  "reuse_stream_Stream a = (case a of Some s \<Rightarrow> Some s | None \<Rightarrow> None)"

definition fullClose :: "stream option \<Rightarrow> ('c, 'h) AStreamCache \<Rightarrow> ('c, 'h) AStreamCache" where
  "fullClose s p = (case s of Some s \<Rightarrow> p\<lparr>fullClosed := fullClosed p @ [s]\<rparr> | None \<Rightarrow> p)"

definition cleanSession :: "(SessionKey \<times> stream) list \<Rightarrow> ('c, 'h) AStreamCache \<Rightarrow> ('c, 'h) AStreamCache" where
  "cleanSession sm p = fold (\<lambda>(k, s). fullClose (reuse_stream_Stream (Some s))) sm p"

definition takelock :: "'c lru \<Rightarrow> string \<Rightarrow> string \<Rightarrow> bool \<Rightarrow> ('c, 'h) AStreamCache \<Rightarrow> err \<times> ('c, 'h) AStreamCache" where
  "takelock L id' pid fired p = (let (e, k) = Lock L pid id' fired (kmutex p) in (e, p\<lparr>kmutex := k\<rparr>))"

definition cleanlock :: "'c lru \<Rightarrow> string \<Rightarrow> string \<Rightarrow> ('c, 'h) AStreamCache \<Rightarrow> ('c, 'h) AStreamCache" where
  "cleanlock L id' pid p = p\<lparr>kmutex := Clean L pid id' (kmutex p)\<rparr>"

definition asc_unlock :: "'c lru \<Rightarrow> string \<Rightarrow> string \<Rightarrow> bool \<Rightarrow> ('c, 'h) AStreamCache \<Rightarrow> err \<times> ('c, 'h) AStreamCache" where
  "asc_unlock L id' pid fired p = (let (e, k) = Unlock L pid id' fired (kmutex p) in (e, p\<lparr>kmutex := k\<rparr>))"

text \<open>
  The loop of \<open>del2\<close> over the whole pool, for an empty protocol: every entry whose key names the peer
  is closed and deleted. The list is the order in which \<open>range\<close> visits the entries.
\<close>

fun del_peer :: "string \<Rightarrow> (StreamKey \<times> (SessionKey \<times> stream) list) list \<Rightarrow>
    ('c, 'h) AStreamCache \<Rightarrow> ('c, 'h) AStreamCache outcome" where
  "del_peer to [] p = Return p"
| "del_peer to ((streamkey, sm) # rest) p =
     bind_outcome (StreamKey_Id streamkey) (\<lambda>i.
       del_peer to rest
         (if i = to then (cleanSession sm p)\<lparr>pool := AList.delete streamkey (pool p)\<rparr> else p))"

definition del2 :: "'c lru \<Rightarrow> string \<Rightarrow> string \<Rightarrow> SessionKey \<Rightarrow> ('c, 'h) AStreamCache \<Rightarrow>
    ('c, 'h) AStreamCache outcome" where
  "del2 L to protoid session p0 =
     (let p = cleanlock L to protoid p0; k = newStreamKey to protoid in
      if protoid = [] then del_peer to (pool p) p
      else if session = [] then
        (let p1 = cleanSession (case map_of (pool p) k of None \<Rightarrow> [] | Some sm \<Rightarrow> sm) p
         in Return (p1\<lparr>pool := AList.delete k (pool p1)\<rparr>))
      else case map_of (pool p) k of
        None \<Rightarrow> Return p
      | Some sm \<Rightarrow>
          (let p1 = fullClose (reuse_stream_Stream (map_of sm session)) p;
               sm' = AList.delete session sm
           in if length sm' = 0 then Return (p1\<lparr>pool := AList.delete k (pool p1)\<rparr>)
              else Return (p1\<lparr>pool := AList.update k sm' (pool p1)\<rparr>)))"

definition asc_del :: "'c lru \<Rightarrow> stream \<Rightarrow> ('c, 'h) AStreamCache \<Rightarrow> ('c, 'h) AStreamCache outcome" where
  "asc_del L s p =
     (let (streamkey, sessionkey) = newStreamSessionKey s in
      bind_outcome (StreamKey_Id streamkey) (\<lambda>i.
        bind_outcome (StreamKey_Protoid streamkey) (\<lambda>pr. del2 L i pr sessionkey p)))"

text \<open>
  \<open>get\<close> returns the first stream that \<open>range\<close> yields; \<open>pick\<close> is that choice. The third result, the
  expiry, is always false.
\<close>

definition get :: "nat \<Rightarrow> string \<Rightarrow> string \<Rightarrow> ('c, 'h) AStreamCache \<Rightarrow> stream option \<times> bool \<times> bool" where
  "get pick to protoid p =
     (case map_of (pool p) (newStreamKey to protoid) of
        None \<Rightarrow> (None, False, False)
      | Some sm \<Rightarrow>
          (if sm = [] then (None, False, False)
           else (Some (snd (sm ! (pick mod length sm))), True, False)))"

text \<open>
  \<open>put\<close> files a stream under its keys; a session that is already there stays as it is. The optional
  arguments only choose whether the caller's or the own lock protects the map.
\<close>

definition put :: "stream \<Rightarrow> ('c, 'h) AStreamCache \<Rightarrow> ('c, 'h) AStreamCache" where
  "put s p =
     (let (streamkey, sessionkey) = newStreamSessionKey s;
          sm = (case map_of (pool p) streamkey of None \<Rightarrow> [] | Some sm \<Rightarrow> sm)
      in case map_of sm sessionkey of
           Some _ \<Rightarrow> p
         | None \<Rightarrow> p\<lparr>pool := AList.update streamkey (AList.update sessionkey s sm) (pool p)\<rparr>)"

text \<open>\<open>has\<close> may be called on a nil cache.\<close>

definition has :: "string \<Rightarrow> ('c, 'h) AStreamCache option \<Rightarrow> bool" where
  "has pid p = (case p of None \<Rightarrow> False | Some p \<Rightarrow> reg p pid \<noteq> None)"

definition unknow_stream_handler_type :: string where
  "unknow_stream_handler_type = ''Unknow Stream Handler Type''"

definition regist :: "string \<Rightarrow> 'h handler \<Rightarrow> ('c, 'h) AStreamCache \<Rightarrow> ('c, 'h) AStreamCache outcome" where
  "regist pid handler p =
     (case handler of
        OtherHandler \<Rightarrow> Panic unknow_stream_handler_type
      | _ \<Rightarrow>
          (case reg p pid of
             Some _ \<Rightarrow> Panic ''alibp2p-service::ReuseStreamHandler Duplicate Registration''
           | None \<Rightarrow> Return (p\<lparr>reg := (reg p)(pid \<mapsto> handler), kmutex := Regist pid (kmutex p)\<rparr>)))"

end
