(* ===== verification/StreamPool.thy ===== *)
theory StreamPool
  imports StreamCache
begin

text \<open>
  What the stream cache promises: its invariant, the effect of \<open>put\<close>, \<open>get\<close> and \<open>del2\<close> on the streams
  filed under a key, and that no stream is lost on the way out of the pool. The promise to the
  messaging layer is the locale \<open>stream_pool\<close>.
\<close>

subsection \<open>The interface\<close>

text \<open>
  \<open>key_of\<close> is the key a stream is filed under, \<open>name\<close> the key a caller's peer and protocol designate;
  \<open>valid\<close> keys are those the caller may drop.
\<close>

locale stream_pool =
  fixes inv :: "'p \<Rightarrow> bool"
    and streams :: "'p \<Rightarrow> 'n \<Rightarrow> 's set"
    and key_of :: "'s \<Rightarrow> 'n"
    and name :: "'k \<Rightarrow> 'n"
    and valid :: "'k \<Rightarrow> bool"
    and add :: "'s \<Rightarrow> 'p \<Rightarrow> 'p"
    and drop_key :: "'k \<Rightarrow> 'p \<Rightarrow> 'p"
    and pick_one :: "'k \<Rightarrow> 'p \<Rightarrow> 's option"
  assumes add_inv: "inv p \<Longrightarrow> inv (add s p)"
    and drop_inv: "inv p \<Longrightarrow> valid k \<Longrightarrow> inv (drop_key k p)"
    and streams_sound: "inv p \<Longrightarrow> s \<in> streams p n \<Longrightarrow> key_of s = n"
    and add_other: "inv p \<Longrightarrow> n \<noteq> key_of s \<Longrightarrow> streams (add s p) n = streams p n"
    and add_same: "inv p \<Longrightarrow> streams (add s p) (key_of s) = streams p (key_of s) \<and> streams p (key_of s) \<noteq> {}
          \<or> streams (add s p) (key_of s) = insert s (streams p (key_of s))"
    and drop_streams: "inv p \<Longrightarrow> valid k \<Longrightarrow> streams (drop_key k p) = (streams p)(name k := {})"
    and pick_None: "inv p \<Longrightarrow> pick_one k p = None \<longleftrightarrow> streams p (name k) = {}"
    and pick_Some: "inv p \<Longrightarrow> pick_one k p = Some s \<Longrightarrow> s \<in> streams p (name k)"
begin

lemma pick_key: "inv p \<Longrightarrow> pick_one k p = Some s \<Longrightarrow> key_of s = name k"
  using pick_Some streams_sound by blast

lemma add_nonempty: "inv p \<Longrightarrow> streams (add s p) (key_of s) \<noteq> {}"
  using add_same by (metis insert_not_empty)

lemma pick_add: "inv p \<Longrightarrow> key_of s = name k \<Longrightarrow> pick_one k (add s p) \<noteq> None"
  using pick_None add_nonempty add_inv by metis

lemma pick_drop: "inv p \<Longrightarrow> valid k \<Longrightarrow> pick_one k (drop_key k p) = None"
  by (simp add: pick_None drop_inv drop_streams)

lemma drop_frame: "inv p \<Longrightarrow> valid k \<Longrightarrow> n \<noteq> name k \<Longrightarrow> streams (drop_key k p) n = streams p n"
  by (simp add: drop_streams)

text \<open>A stream added and then dropped by its key leaves the other keys as they were.\<close>

lemma drop_add:
  "inv p \<Longrightarrow> valid k \<Longrightarrow> key_of s = name k \<Longrightarrow> streams (drop_key k (add s p)) = (streams p)(name k := {})"
  by (rule ext) (simp add: drop_streams add_inv add_other)

text \<open>A fold of \<open>add\<close> over any streams keeps the invariant and never empties a key.\<close>

lemma add_all: "inv p \<Longrightarrow> inv (fold add ss p) \<and> (\<forall>n. streams p n \<noteq> {} \<longrightarrow> streams (fold add ss p) n \<noteq> {})"
proof (induction ss arbitrary: p)
  case Nil
  then show ?case by simp
next
  case (Cons s ss)
  have "streams (add s p) n \<noteq> {}" if "streams p n \<noteq> {}" for n
    using that add_nonempty [OF Cons.prems] add_other [OF Cons.prems] by (cases "n = key_of s") auto
  with Cons.IH [OF add_inv [OF Cons.prems]] show ?case by simp
qed

end

subsection \<open>The invariant of the pool\<close>

definition entry_wf :: "StreamKey \<Rightarrow> (SessionKey \<times> stream) list \<Rightarrow> bool" where
  "entry_wf k sm \<longleftrightarrow>
     sm \<noteq> [] \<and> distinct (map fst sm) \<and> (\<forall>(se, s) \<in> set sm. newStreamSessionKey s = (k, se))"

definition pool_wf :: "('c, 'h) AStreamCache \<Rightarrow> bool" where
  "pool_wf p \<longleftrightarrow> distinct (map fst (pool p)) \<and> (\<forall>(k, sm) \<in> set (pool p). entry_wf k sm)"

definition streams_at :: "('c, 'h) AStreamCache \<Rightarrow> StreamKey \<Rightarrow> stream set" where
  "streams_at p k = (case map_of (pool p) k of None \<Rightarrow> {} | Some sm \<Rightarrow> snd ` set sm)"

definition pool_streams :: "(StreamKey \<times> (SessionKey \<times> stream) list) list \<Rightarrow> stream multiset" where
  "pool_streams P = mset (concat (map (\<lambda>(k, sm). map snd sm) P))"

lemma pool_wf_New [simp]: "pool_wf (NewAStreamCatch L mc)"
  by (simp add: pool_wf_def NewAStreamCatch_def)

lemma pool_wf_entry: "pool_wf p \<Longrightarrow> map_of (pool p) k = Some sm \<Longrightarrow> entry_wf k sm"
  by (auto simp: pool_wf_def dest: map_of_SomeD)

lemma streams_at_key: "pool_wf p \<Longrightarrow> s \<in> streams_at p k \<Longrightarrow> newStreamKey (s_RemotePeer s) (s_Protocol s) = k"
  by (fastforce simp: streams_at_def entry_wf_def newStreamSessionKey_def split: option.splits dest: pool_wf_entry)

lemma set_AList_update: "set (AList.update k v xs) \<subseteq> insert (k, v) (set xs)"
  by (induction xs) auto

lemma set_AList_delete: "set (AList.delete k xs) \<subseteq> set xs"
  by (auto simp: AList.delete_eq)

lemma pool_wf_delete: "pool_wf p \<Longrightarrow> pool_wf (p\<lparr>pool := AList.delete k (pool p)\<rparr>)"
  using set_AList_delete [of k "pool p"] AList.distinct_delete [of "pool p" k] by (auto simp: pool_wf_def)

lemma pool_wf_update: "pool_wf p \<Longrightarrow> entry_wf k sm \<Longrightarrow> pool_wf (p\<lparr>pool := AList.update k sm (pool p)\<rparr>)"
  using set_AList_update [of k sm "pool p"] AList.distinct_update [of "pool p" k sm] by (auto simp: pool_wf_def)

lemma entry_wf_delete: "entry_wf k sm \<Longrightarrow> AList.delete se sm \<noteq> [] \<Longrightarrow> entry_wf k (AList.delete se sm)"
  using set_AList_delete [of se sm] AList.distinct_delete [of sm se] by (auto simp: entry_wf_def)

lemma streams_at_delete:
  "streams_at (p\<lparr>pool := AList.delete k (pool p)\<rparr>) = (streams_at p)(k := {})"
  by (auto simp: fun_eq_iff streams_at_def map_of_delete_conv)

lemma streams_at_update:
  "streams_at (p\<lparr>pool := AList.update k sm (pool p)\<rparr>) = (streams_at p)(k := snd ` set sm)"
  by (auto simp: fun_eq_iff streams_at_def map_of_update_conv)

subsection \<open>Closing\<close>

lemma fullClose_sel [simp]:
  "pool (fullClose s p) = pool p" "reg (fullClose s p) = reg p" "kmutex (fullClose s p) = kmutex p"
  "msgc (fullClose s p) = msgc p"
  "fullClosed (fullClose s p) = fullClosed p @ (case s of None \<Rightarrow> [] | Some s \<Rightarrow> [s])"
  by (auto simp: fullClose_def split: option.split)

lemma reuse_stream_Stream_id [simp]: "reuse_stream_Stream s = s"
  by (simp add: reuse_stream_Stream_def split: option.split)

lemma cleanSession_sel [simp]:
  "pool (cleanSession sm p) = pool p" "reg (cleanSession sm p) = reg p" "kmutex (cleanSession sm p) = kmutex p"
  "msgc (cleanSession sm p) = msgc p"
  "fullClosed (cleanSession sm p) = fullClosed p @ map snd sm"
  by (induction sm arbitrary: p) (auto simp: cleanSession_def)

lemma cleanlock_sel [simp]:
  "pool (cleanlock L i pr p) = pool p" "reg (cleanlock L i pr p) = reg p"
  "fullClosed (cleanlock L i pr p) = fullClosed p" "msgc (cleanlock L i pr p) = msgc p" "kmutex (cleanlock L i pr p) = Clean L pr i (kmutex p)"
  by (simp_all add: cleanlock_def)

lemma pool_wf_pool: "pool q = pool p \<Longrightarrow> pool_wf q = pool_wf p"
  by (simp add: pool_wf_def)

lemma streams_at_pool: "pool q = pool p \<Longrightarrow> streams_at q = streams_at p"
  by (simp add: streams_at_def fun_eq_iff)

subsection \<open>put and get\<close>

lemma put_wf: "pool_wf p \<Longrightarrow> pool_wf (put s p)"
proof -
  assume wf: "pool_wf p"
  let ?k = "newStreamKey (s_RemotePeer s) (s_Protocol s)" and ?se = "session_key s"
  define sm where "sm = (case map_of (pool p) ?k of None \<Rightarrow> [] | Some sm \<Rightarrow> sm)"
  have "\<forall>(e, x) \<in> set sm. newStreamSessionKey x = (?k, e)" and "distinct (map fst sm)"
    using pool_wf_entry [OF wf, of ?k] by (cases "map_of (pool p) ?k"; force simp: sm_def entry_wf_def)+
  then have "entry_wf ?k (AList.update ?se s sm)"
    using set_AList_update [of ?se s sm] AList.distinct_update [of sm ?se s]
    by (cases sm) (auto simp: entry_wf_def newStreamSessionKey_def split: if_splits)
  then show ?thesis
    using wf pool_wf_update by (auto simp: put_def newStreamSessionKey_def sm_def [symmetric] Let_def split: option.split)
qed

lemma put_streams_other:
  "k \<noteq> newStreamKey (s_RemotePeer s) (s_Protocol s) \<Longrightarrow> streams_at (put s p) k = streams_at p k"
  by (auto simp: put_def newStreamSessionKey_def Let_def streams_at_update split: option.split)

text \<open>The session that is already filed wins: \<open>put\<close> then changes nothing, and otherwise it adds the stream.\<close>

lemma session_filed_iff:
  assumes "pool_wf p" and "map_of (pool p) k = Some sm"
  shows "map_of sm se \<noteq> None \<longleftrightarrow> (\<exists>s \<in> streams_at p k. session_key s = se)"
proof -
  have "entry_wf k sm" by (rule pool_wf_entry [OF assms])
  then have key: "(e, s) \<in> set sm \<Longrightarrow> session_key s = e" for e s
    by (auto simp: entry_wf_def newStreamSessionKey_def)
  have "map_of sm se \<noteq> None \<longleftrightarrow> (\<exists>s. (se, s) \<in> set sm)"
    by (force simp: map_of_eq_None_iff)
  also have "\<dots> \<longleftrightarrow> (\<exists>s \<in> streams_at p k. session_key s = se)"
    using assms(2) key by (force simp: streams_at_def)
  finally show ?thesis .
qed

lemma put_old:
  assumes "pool_wf p" and "s0 \<in> streams_at p (newStreamKey (s_RemotePeer s) (s_Protocol s))"
    and "session_key s0 = session_key s"
  shows "put s p = p"
proof -
  obtain sm where sm: "map_of (pool p) (newStreamKey (s_RemotePeer s) (s_Protocol s)) = Some sm"
    using assms(2) by (auto simp: streams_at_def split: option.splits)
  have "map_of sm (session_key s) \<noteq> None" using session_filed_iff [OF assms(1) sm] assms(2,3) by blast
  with sm show ?thesis by (auto simp: put_def newStreamSessionKey_def Let_def)
qed

lemma put_new:
  assumes wf: "pool_wf p"
    and new: "\<not> (\<exists>s0 \<in> streams_at p (newStreamKey (s_RemotePeer s) (s_Protocol s)). session_key s0 = session_key s)"
  shows "streams_at (put s p) (newStreamKey (s_RemotePeer s) (s_Protocol s)) =
    insert s (streams_at p (newStreamKey (s_RemotePeer s) (s_Protocol s)))"
proof -
  define k where "k = newStreamKey (s_RemotePeer s) (s_Protocol s)"
  define sm where "sm = (case map_of (pool p) k of None \<Rightarrow> [] | Some sm \<Rightarrow> sm)"
  have old: "snd ` set sm = streams_at p k" by (simp add: sm_def streams_at_def split: option.split)
  have none: "map_of sm (session_key s) = None"
    using session_filed_iff [OF wf, of k sm "session_key s"] new unfolding k_def [symmetric]
    by (cases "map_of (pool p) k") (auto simp: sm_def)
  then have "put s p = p\<lparr>pool := AList.update k (AList.update (session_key s) s sm) (pool p)\<rparr>"
    by (simp add: put_def newStreamSessionKey_def k_def [symmetric] sm_def [symmetric] Let_def)
  moreover have "AList.update (session_key s) s sm = sm @ [(session_key s, s)]"
    using none by (induction sm) (auto split: if_splits)
  ultimately show ?thesis
    unfolding k_def [symmetric] by (simp add: streams_at_update old)
qed

lemma put_streams_same:
  fixes s :: stream
  assumes "pool_wf p"
  defines "k \<equiv> newStreamKey (s_RemotePeer s) (s_Protocol s)"
  shows "streams_at (put s p) k = streams_at p k \<and> streams_at p k \<noteq> {}
    \<or> streams_at (put s p) k = insert s (streams_at p k)"
  using put_old [OF assms(1), of _ s] put_new [OF assms(1), of s] unfolding k_def by fastforce

lemma get_cases:
  assumes "pool_wf p"
  shows "(fst (get n to pr p) = None \<longleftrightarrow> streams_at p (newStreamKey to pr) = {}) \<and>
    (\<forall>s. fst (get n to pr p) = Some s \<longrightarrow> s \<in> streams_at p (newStreamKey to pr)) \<and>
    (fst (snd (get n to pr p)) \<longleftrightarrow> fst (get n to pr p) \<noteq> None) \<and> \<not> snd (snd (get n to pr p))"
proof (cases "map_of (pool p) (newStreamKey to pr)")
  case None
  then show ?thesis by (simp add: get_def streams_at_def)
next
  case (Some sm)
  then have "sm \<noteq> []" using pool_wf_entry [OF assms] by (auto simp: entry_wf_def)
  moreover from this have "sm ! (n mod length sm) \<in> set sm" by simp
  ultimately show ?thesis using Some by (auto simp: get_def streams_at_def intro: image_eqI)
qed

subsection \<open>del2\<close>

text \<open>Bookkeeping of streams under the updates of the two levels of maps.\<close>

lemma mset_delete:
  "distinct (map fst xs) \<Longrightarrow> map_of xs k = Some v \<Longrightarrow>
   mset (map snd xs) = add_mset v (mset (map snd (AList.delete k xs)))"
proof (induction xs)
  case Nil
  then show ?case by simp
next
  case (Cons x xs)
  show ?case
  proof (cases "fst x = k")
    case True
    with Cons.prems have "k \<notin> fst ` set xs" by auto
    with True Cons.prems show ?thesis by (cases x) (auto simp: AList.delete_notin_dom)
  next
    case False
    with Cons show ?thesis by (cases x) auto
  qed
qed

lemma delete_None: "map_of xs k = None \<Longrightarrow> AList.delete k xs = xs"
  by (simp add: AList.delete_notin_dom map_of_eq_None_iff)

lemma pool_streams_Cons [simp]: "pool_streams ((k, sm) # P) = mset (map snd sm) + pool_streams P"
  by (simp add: pool_streams_def)

lemma pool_streams_Nil [simp]: "pool_streams [] = {#}"
  by (simp add: pool_streams_def)

lemma pool_streams_delete:
  "distinct (map fst P) \<Longrightarrow> map_of P k = Some sm \<Longrightarrow>
   pool_streams P = mset (map snd sm) + pool_streams (AList.delete k P)"
proof (induction P)
  case Nil
  then show ?case by simp
next
  case (Cons x P)
  show ?case
  proof (cases "fst x = k")
    case True
    with Cons.prems have "k \<notin> fst ` set P" by auto
    with True Cons.prems show ?thesis by (cases x) (auto simp: AList.delete_notin_dom)
  next
    case False
    with Cons show ?thesis by (cases x) auto
  qed
qed

lemma pool_streams_update:
  "distinct (map fst P) \<Longrightarrow> map_of P k = Some sm \<Longrightarrow>
   pool_streams (AList.update k sm' P) + mset (map snd sm) = pool_streams P + mset (map snd sm')"
proof (induction P)
  case Nil
  then show ?case by simp
next
  case (Cons x P)
  then show ?case by (cases x) (auto simp: ac_simps split: if_splits)
qed

lemma pool_streams_update_new:
  "map_of P k = None \<Longrightarrow> pool_streams (AList.update k sm P) = pool_streams P + mset (map snd sm)"
  by (induction P) (auto simp: ac_simps split: if_splits)

text \<open>The loop over the pool removes exactly the entries whose key names the peer.\<close>

definition names_peer :: "string \<Rightarrow> StreamKey \<Rightarrow> bool" where
  "names_peer to k \<longleftrightarrow> StreamKey_Id k = Return to"

lemma del_peer_spec:
  assumes "\<forall>(k, sm) \<in> set P. \<exists>i. StreamKey_Id k = Return i"
  shows "del_peer to P p = Return (p\<lparr>
      pool := filter (\<lambda>(k, _). k \<notin> fst ` set (filter (\<lambda>(k, _). names_peer to k) P)) (pool p),
      fullClosed := fullClosed p @ concat (map (map snd \<circ> snd) (filter (\<lambda>(k, _). names_peer to k) P))\<rparr>)"
  using assms
proof (induction P arbitrary: p)
  case Nil
  then show ?case by simp
next
  case (Cons x P)
  obtain k sm where x: "x = (k, sm)" by (cases x)
  obtain i where i: "StreamKey_Id k = Return i" using Cons.prems x by auto
  define q where "q = (if i = to then (cleanSession sm p)\<lparr>pool := AList.delete k (pool p)\<rparr> else p)"
  have "del_peer to (x # P) p = del_peer to P q" by (simp add: x i q_def)
  moreover have "reg q = reg p" "kmutex q = kmutex p" "msgc q = msgc p"
    "fullClosed q = fullClosed p @ (if names_peer to k then map snd sm else [])"
    "pool q = filter (\<lambda>(k', _). names_peer to k \<longrightarrow> k' \<noteq> k) (pool p)"
    by (auto simp: q_def names_peer_def i AList.delete_eq intro: filter_cong)
  moreover have "names_peer to k \<longleftrightarrow> i = to" by (auto simp: names_peer_def i)
  ultimately show ?case
    using Cons.IH [of q] Cons.prems x
    by (auto simp: AStreamCache.equality o_def q_def conj_commute intro!: AStreamCache.equality filter_cong)
qed

lemma pool_wf_key_shape:
  assumes "pool_wf p" and "(k, sm) \<in> set (pool p)"
  obtains to pr where "k = newStreamKey to pr"
proof -
  have wf: "entry_wf k sm" using assms by (auto simp: pool_wf_def)
  then obtain se s where "(se, s) \<in> set sm" by (cases sm) (auto simp: entry_wf_def)
  with wf have "newStreamSessionKey s = (k, se)" by (auto simp: entry_wf_def)
  then show ?thesis using that by (auto simp: newStreamSessionKey_def)
qed

lemma del2_peer:
  assumes wf: "pool_wf p"
  shows "del2 L to [] session p = Return (p\<lparr>
    pool := filter (\<lambda>(k, _). \<not> names_peer to k) (pool p),
    fullClosed := fullClosed p @ concat (map (map snd \<circ> snd) (filter (\<lambda>(k, _). names_peer to k) (pool p)))\<rparr>)"
proof -
  have keys: "\<forall>(k, sm) \<in> set (pool p). \<exists>i. StreamKey_Id k = Return i"
  proof clarify
    fix k sm
    assume "(k, sm) \<in> set (pool p)"
    then obtain t pr where "k = newStreamKey t pr" by (rule pool_wf_key_shape [OF wf])
    then show "\<exists>i. StreamKey_Id k = Return i" by (simp add: StreamKey_Id_Return)
  qed
  have "cleanlock L to [] p = p" by (simp add: cleanlock_def Clean_blank)
  moreover have "filter (\<lambda>(k, _). k \<notin> fst ` set (filter (\<lambda>(k, _). names_peer to k) (pool p))) (pool p) =
      filter (\<lambda>(k, _). \<not> names_peer to k) (pool p)"
    by (rule filter_cong) (force split: prod.splits)+
  ultimately show ?thesis by (simp add: del2_def del_peer_spec [OF keys])
qed

lemma del2_key:
  assumes "protoid \<noteq> []"
  shows "del2 L to protoid [] p = Return ((cleanlock L to protoid p)\<lparr>
    pool := AList.delete (newStreamKey to protoid) (pool p),
    fullClosed := fullClosed p @
      (case map_of (pool p) (newStreamKey to protoid) of None \<Rightarrow> [] | Some sm \<Rightarrow> map snd sm)\<rparr>)"
  using assms by (auto simp: del2_def Let_def intro!: AStreamCache.equality split: option.split)

lemma del2_session:
  assumes "protoid \<noteq> []" and "session \<noteq> []"
  shows "del2 L to protoid session p =
   (case map_of (pool p) (newStreamKey to protoid) of
      None \<Rightarrow> Return (cleanlock L to protoid p)
    | Some sm \<Rightarrow> Return ((cleanlock L to protoid p)\<lparr>
        pool := (if AList.delete session sm = [] then AList.delete (newStreamKey to protoid) (pool p)
                 else AList.update (newStreamKey to protoid) (AList.delete session sm) (pool p)),
        fullClosed := fullClosed p @ (case map_of sm session of None \<Rightarrow> [] | Some s \<Rightarrow> [s])\<rparr>))"
  using assms by (auto simp: del2_def Let_def intro!: AStreamCache.equality split: option.split)

text \<open>On a well-formed pool \<open>del2\<close> never panics, keeps the invariant and accounts for every stream.\<close>

lemma pool_wf_filter: "pool_wf p \<Longrightarrow> pool_wf (p\<lparr>pool := filter f (pool p), fullClosed := c\<rparr>)"
  by (auto simp: pool_wf_def distinct_map_filter)

lemma pool_streams_filter:
  "pool_streams P = pool_streams (filter f P) + mset (concat (map (map snd \<circ> snd) (filter (\<lambda>x. \<not> f x) P)))"
  by (induction P) (auto simp: ac_simps)

lemma del2_total:
  assumes wf: "pool_wf p"
  obtains p' where "del2 L to protoid session p = Return p'" and "pool_wf p'"
    and "pool_streams (pool p') + mset (fullClosed p') = pool_streams (pool p) + mset (fullClosed p)"
    and "reg p' = reg p"
proof (cases "protoid = []")
  case True
  show ?thesis
  proof (rule that)
    show "del2 L to protoid session p = Return (p\<lparr>
      pool := filter (\<lambda>(k, _). \<not> names_peer to k) (pool p),
      fullClosed := fullClosed p @ concat (map (map snd \<circ> snd) (filter (\<lambda>(k, _). names_peer to k) (pool p)))\<rparr>)"
      unfolding True by (rule del2_peer [OF wf])
  qed (use pool_wf_filter [OF wf] pool_streams_filter [of "pool p" "\<lambda>(k, _). \<not> names_peer to k"] in
      \<open>simp_all add: ac_simps split_def\<close>)
next
  case proto: False
  let ?k = "newStreamKey to protoid"
  have dist: "distinct (map fst (pool p))" using wf by (simp add: pool_wf_def)
  have clean: "pool_wf (cleanlock L to protoid p)" using wf by (simp add: pool_wf_def)
  show ?thesis
  proof (cases "session = []")
    case True
    show ?thesis
    proof (rule that)
      show "del2 L to protoid session p = Return ((cleanlock L to protoid p)\<lparr>
          pool := AList.delete ?k (pool p), fullClosed := fullClosed p @
          (case map_of (pool p) ?k of None \<Rightarrow> [] | Some sm \<Rightarrow> map snd sm)\<rparr>)"
        unfolding True by (rule del2_key [OF proto])
    qed (use pool_wf_delete [OF wf, of ?k] pool_streams_delete [OF dist, of ?k] in
        \<open>auto simp: pool_wf_def delete_None ac_simps split: option.split\<close>)
  next
    case sess: False
    show ?thesis
    proof (cases "map_of (pool p) ?k")
      case None
      then show ?thesis
        using that [of "cleanlock L to protoid p"] clean del2_session [OF proto sess, of L to p] by simp
    next
      case (Some sm)
      have ew: "entry_wf ?k sm" by (rule pool_wf_entry [OF wf Some])
      define sm' where "sm' = AList.delete session sm"
      define P where "P = (if sm' = [] then AList.delete ?k (pool p) else AList.update ?k sm' (pool p))"
      define cl where "cl = (case map_of sm session of None \<Rightarrow> [] | Some s \<Rightarrow> [s])"
      have eq: "del2 L to protoid session p =
          Return ((cleanlock L to protoid p)\<lparr>pool := P, fullClosed := fullClosed p @ cl\<rparr>)"
        using del2_session [OF proto sess, of L to p] Some by (simp add: P_def sm'_def cl_def)
      have "mset (map snd sm) = mset cl + mset (map snd sm')"
        using mset_delete [of sm session] ew
        by (cases "map_of sm session")
          (auto simp: cl_def sm'_def entry_wf_def delete_None)
      then have "pool_streams P + mset cl = pool_streams (pool p)"
        using pool_streams_delete [OF dist Some] pool_streams_update [OF dist Some, of sm']
        by (auto simp: P_def ac_simps)
      moreover have "pool_wf (p\<lparr>pool := P\<rparr>)"
        using pool_wf_delete [OF wf, of ?k] pool_wf_update [OF wf] entry_wf_delete [OF ew]
        by (auto simp: P_def sm'_def)
      ultimately show ?thesis
        using that [OF eq] by (auto simp: pool_wf_def ac_simps)
    qed
  qed
qed

subsection \<open>The cache provides the interface\<close>

definition drop_all :: "'c lru \<Rightarrow> string \<Rightarrow> string \<Rightarrow> ('c, 'h) AStreamCache \<Rightarrow> ('c, 'h) AStreamCache" where
  "drop_all L to protoid p = (case del2 L to protoid [] p of Return p' \<Rightarrow> p' | Panic _ \<Rightarrow> p)"

lemma del2_drop_all: "protoid \<noteq> [] \<Longrightarrow> del2 L to protoid [] p = Return (drop_all L to protoid p)"
  by (simp add: drop_all_def del2_key)

lemma drop_all_streams:
  "protoid \<noteq> [] \<Longrightarrow> streams_at (drop_all L to protoid p) = (streams_at p)(newStreamKey to protoid := {})"
  by (auto simp: drop_all_def del2_key fun_eq_iff streams_at_def map_of_delete_conv)

lemma drop_all_wf: "pool_wf p \<Longrightarrow> protoid \<noteq> [] \<Longrightarrow> pool_wf (drop_all L to protoid p)"
  using del2_drop_all [of protoid L to p] del2_total [of p L to protoid "[]"] by fastforce

lemma drop_all_sel [simp]:
  assumes "protoid \<noteq> []"
  shows "reg (drop_all L to protoid p) = reg p"
    and "kmutex (drop_all L to protoid p) = Clean L protoid to (kmutex p)"
    and "msgc (drop_all L to protoid p) = msgc p"
  using assms by (simp_all add: drop_all_def del2_key)

interpretation asc: stream_pool pool_wf streams_at "\<lambda>s. newStreamKey (s_RemotePeer s) (s_Protocol s)"
  "\<lambda>(to, protoid). newStreamKey to protoid" "\<lambda>(to, protoid). protoid \<noteq> []" put
  "\<lambda>(to, protoid). drop_all L to protoid" "\<lambda>(to, protoid) p. fst (get n to protoid p)" for L n
proof (unfold_locales, goal_cases)
  case (1 p s) then show ?case by (rule put_wf)
next
  case (2 p k) then show ?case by (auto simp: drop_all_wf split: prod.splits)
next
  case (3 p s n) then show ?case by (rule streams_at_key)
next
  case (4 p n s) then show ?case using put_streams_other by blast
next
  case (5 p s) then show ?case using put_streams_same by blast
next
  case (6 p k) then show ?case by (auto simp: drop_all_streams split: prod.splits)
next
  case (7 p k) then show ?case using get_cases [OF 7] by (auto split: prod.splits)
next
  case (8 p k s) then show ?case using get_cases [OF 8(1)] by (auto split: prod.splits)
qed

subsection \<open>Properties\<close>

text \<open>
  C24: a stream that was put can be got, and an earlier session wins over a later \<open>put\<close>. After \<open>put\<close>,
  \<open>get\<close> for its peer and protocol finds a live stream filed under exactly this key, whichever entry the
  map iteration yields. If a stream of the same session was filed there, the cache is as it was; else the
  stream joins those under its key. No other key changes and nothing is closed.
\<close>

theorem get_after_put:
  assumes "pool_wf p"
  shows "(\<exists>s'. get n (s_RemotePeer s) (s_Protocol s) (put s p) = (Some s', True, False) \<and>
       s' \<in> streams_at (put s p) (newStreamKey (s_RemotePeer s) (s_Protocol s))) \<and>
     (if \<exists>s0 \<in> streams_at p (newStreamKey (s_RemotePeer s) (s_Protocol s)). session_key s0 = session_key s
      then put s p = p
      else streams_at (put s p) (newStreamKey (s_RemotePeer s) (s_Protocol s)) =
        insert s (streams_at p (newStreamKey (s_RemotePeer s) (s_Protocol s)))) \<and>
     (\<forall>k. k \<noteq> newStreamKey (s_RemotePeer s) (s_Protocol s) \<longrightarrow> streams_at (put s p) k = streams_at p k) \<and>
     fullClosed (put s p) = fullClosed p"
proof -
  let ?k = "(s_RemotePeer s, s_Protocol s)"
  note wf = asc.add_inv [OF assms, where s = s]
  obtain s' where "fst (get n (s_RemotePeer s) (s_Protocol s) (put s p)) = Some s'"
    using asc.pick_add [OF assms, where s = s and k = ?k and n = n] by auto
  then have "\<exists>s'. get n (s_RemotePeer s) (s_Protocol s) (put s p) = (Some s', True, False) \<and>
      s' \<in> streams_at (put s p) (newStreamKey (s_RemotePeer s) (s_Protocol s))"
    using get_cases [OF wf, of n "s_RemotePeer s" "s_Protocol s"]
    by (cases "get n (s_RemotePeer s) (s_Protocol s) (put s p)") auto
  moreover have "fullClosed (put s p) = fullClosed p"
    by (simp add: put_def newStreamSessionKey_def Let_def split: option.split)
  ultimately show ?thesis
    using put_old [OF assms] put_new [OF assms] asc.add_other [OF assms] by auto
qed

definition ex_stream :: stream where
  "ex_stream = \<lparr>s_num = 7, s_Protocol = ''/echo/1'', s_RemotePeer = ''16Uiu2'',
     s_RemoteAddr = ''/ip4/10.0.0.2/tcp/1'', s_LocalAddr = ''/ip4/10.0.0.1/tcp/2'', s_Direction = DirOutbound\<rparr>"

theorem get_after_put_witness:
  "\<exists>s'. get 3 ''16Uiu2'' ''/echo/1'' (put ex_stream (NewAStreamCatch fifo_lru None)) = (Some s', True, False)"
  using get_after_put [of "NewAStreamCatch fifo_lru None" 3 ex_stream] by (auto simp: ex_stream_def)

text \<open>
  C16: \<open>del2\<close> never panics on a cache it built itself, keeps the cache well-formed, and accounts for every
  stream: the streams in the pool together with the streams handed to \<open>fullClose\<close> stay the same
  multiset, in each of its three modes. No stream is dropped without being closed, none is closed and
  kept.
\<close>

theorem del2_accounts:
  assumes "pool_wf p"
  shows "\<exists>p'. del2 L to protoid session p = Return p' \<and> pool_wf p' \<and>
     pool_streams (pool p') + mset (fullClosed p') = pool_streams (pool p) + mset (fullClosed p)"
  by (rule del2_total [OF assms]) blast

theorem del2_accounts_witness:
  "\<exists>p'. del2 fifo_lru ''16Uiu2'' ''/echo/1'' [] (put ex_stream (NewAStreamCatch fifo_lru None)) = Return p' \<and>
     pool_streams (pool p') + mset (fullClosed p') = {#ex_stream#}"
proof -
  let ?p = "put ex_stream (NewAStreamCatch fifo_lru None)"
  have "pool_streams (pool ?p) + mset (fullClosed ?p) = {#ex_stream#}"
    by (simp add: put_def newStreamSessionKey_def NewAStreamCatch_def)
  then show ?thesis
    using del2_accounts [OF put_wf [OF pool_wf_New [where mc = None]], of fifo_lru "''16Uiu2''" "''/echo/1''" "[]" ex_stream fifo_lru]
    by auto
qed

lemma del2_peer_streams:
  assumes "pool_wf p" and "CHR ''@'' \<notin> set protoid" and "CHR ''@'' \<notin> set peer"
  shows "\<exists>p'. del2 L to [] session p = Return p' \<and>
     streams_at p' (newStreamKey peer protoid) =
       (if peer = to then {} else streams_at p (newStreamKey peer protoid))"
proof -
  have "names_peer to (newStreamKey peer protoid) \<longleftrightarrow> peer = to"
    using assms by (auto simp: names_peer_def StreamKey_Id_new)
  then show ?thesis
    using map_of_filter_key [of "\<lambda>k. \<not> names_peer to k" "pool p"]
    by (simp add: del2_peer [OF assms(1)] streams_at_def)
qed

text \<open>
  On a disconnect (\<open>del2\<close> with an empty protocol) every stream to the peer leaves the pool, whatever
  its protocol, and the streams to other peers stay. This is for protocol names without the
  separator of the stream keys.
\<close>

theorem del2_disconnect:
  assumes "pool_wf p" and "CHR ''@'' \<notin> set protoid" and "CHR ''@'' \<notin> set peer"
  shows "\<exists>p'. del2 L to [] session p = Return p' \<and>
     streams_at p' (newStreamKey peer protoid) =
       (if peer = to then {} else streams_at p (newStreamKey peer protoid))"
  using assms by (rule del2_peer_streams)

theorem del2_disconnect_witness:
  "\<exists>p'. del2 fifo_lru ''16Uiu2'' [] [] (put ex_stream (NewAStreamCatch fifo_lru None)) = Return p' \<and>
     streams_at p' (newStreamKey ''16Uiu2'' ''/echo/1'') = {}"
  using del2_disconnect [OF put_wf [OF pool_wf_New], where protoid = "''/echo/1''" and
      peer = "''16Uiu2''" and to = "''16Uiu2''" and session = "[]"] by simp

text \<open>
  With the separator in the protocol name the key is misread and the stream survives the
  disconnect: a cache with one stream of \<open>/echo@2\<close> keeps it after its peer was deleted.
\<close>

theorem del2_disconnect_misses:
  fixes L :: "'c lru"
  shows "let s = ex_stream\<lparr>s_Protocol := ''/echo@2''\<rparr>
   in \<exists>p'. del2 L ''16Uiu2'' [] [] (put s (NewAStreamCatch L mc) :: ('c, 'h) AStreamCache) = Return p' \<and>
        streams_at p' (newStreamKey ''16Uiu2'' ''/echo@2'') = {s}"
proof -
  let ?s = "ex_stream\<lparr>s_Protocol := ''/echo@2''\<rparr>"
  have key: "\<not> names_peer ''16Uiu2'' ''/echo@2@16Uiu2''"
    using Split_char_first [of "CHR ''@''" "''/echo''" "''2@16Uiu2''"]
      Split_char_first [of "CHR ''@''" "''2''" "''16Uiu2''"]
    by (simp add: names_peer_def StreamKey_Id_def)
  have "pool (put ?s (NewAStreamCatch L mc) :: ('c, 'h) AStreamCache) = [(''/echo@2@16Uiu2'', [(session_key ?s, ?s)])]"
    by (simp add: put_def newStreamSessionKey_def NewAStreamCatch_def newStreamKey_def ex_stream_def)
  with key show ?thesis
    by (simp add: Let_def del2_peer [OF put_wf [OF pool_wf_New]] streams_at_def newStreamKey_def)
qed

text \<open>
  Registration succeeds exactly for a known handler type and a protocol that is not registered yet;
  it then makes \<open>has\<close> true for that protocol only, and registers the protocol as a lock namespace.
\<close>

theorem regist_spec:
  "(case regist pid handler p of
      Return p' \<Rightarrow> handler \<noteq> OtherHandler \<and> \<not> has pid (Some p) \<and>
        (\<forall>q. has q (Some p') \<longleftrightarrow> q = pid \<or> has q (Some p)) \<and>
        reglock (kmutex p') pid \<noteq> None \<and> pool p' = pool p
    | Panic m \<Rightarrow> handler = OtherHandler \<and> m = unknow_stream_handler_type \<or> has pid (Some p))"
  by (auto simp: regist_def has_def Regist_def make_chan_def Let_def split: handler.split option.split)

end
