(* ===== verification/HandleStream.thy ===== *)
theory HandleStream
  imports StreamPool Keys
begin

text \<open>
  The server side of a reused stream, \<open>doHandleStream\<close> of \<open>pool.go\<close>: one request frame after the other
  is read from the stream, handed to the registered handler through a pair of buffers, and answered
  with a frame that carries the request's id. A \<open>peer.ID\<close> is represented by its base58 text, the form
  in which the code prints and compares it.

  amino's framing is not part of the repository: what \<open>FromReader\<close> delivered and what \<open>ToWriter\<close>
  answered in each turn are inputs of the model. The handlers are parameters too.
\<close>

subsection \<open>Buffers\<close>

record reuse_conn =
  reader :: "byte list"
  writer :: "byte list"

text \<open>\<open>bytes.Buffer\<close>: \<open>Write\<close> appends and never fails, \<open>ReadAll\<close> empties the buffer into a non-nil slice.\<close>

definition buffer_Write :: "byte list \<Rightarrow> byte list \<Rightarrow> err \<times> byte list" where
  "buffer_Write b d = (None, b @ d)"

definition ReadAll :: "byte list \<Rightarrow> byte list option \<times> err \<times> byte list" where
  "ReadAll b = (Some b, None, [])"

subsection \<open>The request loop\<close>

text \<open>
  One turn: the request as \<open>FromReader\<close> left it, its error, and the error of writing the response (not
  looked at when there is no response).
\<close>

record turn =
  t_req :: RawData
  t_read :: err
  t_write :: err

text \<open>
  A handler of either type acts on the connection's buffers and on a world of its own; it may panic.
\<close>

record ('h, 'w) handler_env =
  run_StreamHandler :: "'h \<Rightarrow> string \<Rightarrow> PublicKey \<Rightarrow> reuse_conn \<Rightarrow> 'w \<Rightarrow> (err \<times> reuse_conn \<times> 'w) outcome"
  run_WithProtocol :: "'h \<Rightarrow> string \<Rightarrow> string \<Rightarrow> PublicKey \<Rightarrow> reuse_conn \<Rightarrow> 'w \<Rightarrow> (err \<times> reuse_conn \<times> 'w) outcome"

text \<open>The loop's state: buffers, the handlers' world, the cache, and the frames given to \<open>ToWriter\<close>.\<close>

record ('c, 'h, 'w) loop_state =
  rw :: reuse_conn
  world :: 'w
  cache :: "('c, 'h) AStreamCache"
  sent :: "RawData list"

definition asc_callHandler :: "('h, 'w) handler_env \<Rightarrow> stream \<Rightarrow> PubKey option \<Rightarrow> 'h handler option \<Rightarrow>
    reuse_conn \<Rightarrow> 'w \<Rightarrow> (err \<times> reuse_conn \<times> 'w) outcome" where
  "asc_callHandler E s pk h b w =
     (case h of
        Some (StreamHandler fn) \<Rightarrow>
          bind_outcome (pubkeyToEcdsa pk) (\<lambda>k. run_StreamHandler E fn (session_key s) k b w)
      | Some (StreamHandlerWithProtocol fn) \<Rightarrow>
          bind_outcome (pubkeyToEcdsa pk) (\<lambda>k. run_WithProtocol E fn (session_key s) (s_Protocol s) k b w)
      | _ \<Rightarrow> Return (Some unknow_stream_handler_type, b, w))"

text \<open>What the loop does after a turn: return from the function, or go on with the next read.\<close>

datatype 'a flow = Stop 'a | Next 'a

text \<open>
  The \<open>select\<close> at the end of a turn. A cancelled turn ends the loop; it sends an error frame when the
  outer \<open>err\<close> is set, with the request's id bytes as they came.
\<close>

definition end_turn :: "stream \<Rightarrow> RawData \<Rightarrow> bool \<Rightarrow> err \<Rightarrow> ('c, 'h, 'w) loop_state \<Rightarrow>
    ('c, 'h, 'w) loop_state flow" where
  "end_turn s req cancelled e st =
     (if cancelled then
        (case e of
           Some m \<Rightarrow> Stop (st\<lparr>sent := sent st @ [\<lparr>rId = rId req, rErr = m, rData = []\<rparr>]\<rparr>)
         | None \<Rightarrow> Stop st)
      else Next (st\<lparr>cache := log_metrics
             [LogRecvMessage 1, LogRecvMessageStream 1 (s_Protocol s) (s_RemotePeer s)] (cache st)\<rparr>))"

text \<open>
  The response. Its write error is a variable of an inner scope: it cancels the loop but leaves the
  outer \<open>err\<close> nil, so no error frame follows. A fresh id is never drawn, as the id is not nil.
\<close>

definition respond :: "stream \<Rightarrow> turn \<Rightarrow> byte list option \<Rightarrow> ('c, 'h, 'w) loop_state \<Rightarrow>
    ('c, 'h, 'w) loop_state flow" where
  "respond s t ret st =
     (case ret of
        None \<Rightarrow> end_turn s (t_req t) False None st
      | Some ret \<Rightarrow>
          (let rsp = NewRawData [] (Some (RawData_ID (t_req t))) ret;
               st1 = st\<lparr>sent := sent st @ [rsp]\<rparr>
           in if t_write t \<noteq> None then end_turn s (t_req t) True None st1
              else end_turn s (t_req t) False None (st1\<lparr>cache := log_metrics
                [LogSentMessage 1, LogSentMessageStream 1 (s_Protocol s) (s_RemotePeer s)] (cache st1)\<rparr>)))"

definition handle_turn :: "('h, 'w) handler_env \<Rightarrow> stream \<Rightarrow> PubKey option \<Rightarrow> turn \<Rightarrow>
    ('c, 'h, 'w) loop_state \<Rightarrow> ('c, 'h, 'w) loop_state flow outcome" where
  "handle_turn E s pk t st =
     (let req = t_req t in
      if rErr req \<noteq> [] then Return (Stop st)
      else case t_read t of
        Some e \<Rightarrow> Return (end_turn s req True (Some e) st)
      | None \<Rightarrow>
          (case buffer_Write (reader (rw st)) (rData req) of
             (Some e, b) \<Rightarrow> Return (end_turn s req True (Some e) (st\<lparr>rw := (rw st)\<lparr>reader := b\<rparr>\<rparr>))
           | (None, b) \<Rightarrow>
               bind_outcome
                 (asc_callHandler E s pk (reg (cache st) (s_Protocol s)) ((rw st)\<lparr>reader := b\<rparr>) (world st))
                 (\<lambda>(e, rw1, w1).
                   (let st1 = st\<lparr>rw := rw1, world := w1\<rparr> in
                    case e of
                      Some m \<Rightarrow> Return (end_turn s req True (Some m) st1)
                    | None \<Rightarrow>
                        (case ReadAll (writer rw1) of
                           (ret, Some m, b2) \<Rightarrow>
                             Return (end_turn s req True (Some m) (st1\<lparr>rw := rw1\<lparr>writer := b2\<rparr>\<rparr>))
                         | (ret, None, b2) \<Rightarrow>
                             Return (respond s t ret (st1\<lparr>rw := rw1\<lparr>writer := b2\<rparr>\<rparr>)))))))"

text \<open>
  The loop over the turns, and whether it has returned: when the input is used up the function waits in
  \<open>FromReader\<close>.
\<close>

fun handle_loop :: "('h, 'w) handler_env \<Rightarrow> stream \<Rightarrow> PubKey option \<Rightarrow> turn list \<Rightarrow>
    ('c, 'h, 'w) loop_state \<Rightarrow> (bool \<times> ('c, 'h, 'w) loop_state) outcome" where
  "handle_loop E s pk [] st = Return (False, st)"
| "handle_loop E s pk (t # ts) st =
     bind_outcome (handle_turn E s pk t st) (\<lambda>f.
       case f of Stop st1 \<Rightarrow> Return (True, st1) | Next st1 \<Rightarrow> handle_loop E s pk ts st1)"

text \<open>\<open>doHandleStream\<close>: the key's extraction error is dropped; the deferred function closes the stream.\<close>

definition doHandleStream :: "('k, string, PubKey) lru_ops \<Rightarrow> string peer_pkg \<Rightarrow> ('h, 'w) handler_env \<Rightarrow>
    stream \<Rightarrow> turn list \<Rightarrow> 'k \<Rightarrow> 'w \<Rightarrow> ('c, 'h) AStreamCache \<Rightarrow>
    (bool \<times> ('c, 'h, 'w) loop_state \<times> 'k) outcome" where
  "doHandleStream C pp E s ts kc w p =
     (let (pk, kc1) = id2pubkey_nil C pp (s_RemotePeer s) kc in
      bind_outcome
        (handle_loop E s pk ts \<lparr>rw = \<lparr>reader = [], writer = []\<rparr>, world = w, cache = p, sent = []\<rparr>)
        (\<lambda>(ended, st).
          Return (ended, if ended then st\<lparr>cache := fullClose (Some s) (cache st)\<rparr> else st, kc1)))"

subsection \<open>One turn\<close>

definition error_frame :: "RawData \<Rightarrow> string \<Rightarrow> RawData" where
  "error_frame req m = \<lparr>rId = rId req, rErr = m, rData = []\<rparr>"

definition response_frame :: "RawData \<Rightarrow> byte list \<Rightarrow> RawData" where
  "response_frame req d = NewRawData [] (Some (RawData_ID req)) d"

definition turn_metrics :: "stream \<Rightarrow> metric list" where
  "turn_metrics s =
     [LogSentMessage 1, LogSentMessageStream 1 (s_Protocol s) (s_RemotePeer s),
      LogRecvMessage 1, LogRecvMessageStream 1 (s_Protocol s) (s_RemotePeer s)]"

lemma frame_sel [simp]:
  "RawData_ID (error_frame req m) = RawData_ID req" "rErr (error_frame req m) = m"
  "RawData_ID (response_frame req d) = RawData_ID req" "rErr (response_frame req d) = []"
  "rData (response_frame req d) = d"
  by (simp_all add: error_frame_def response_frame_def) (simp add: RawData_ID_def)

lemma log_metrics_sel [simp]:
  "pool (log_metrics ms p) = pool p" "reg (log_metrics ms p) = reg p" "kmutex (log_metrics ms p) = kmutex p"
  "fullClosed (log_metrics ms p) = fullClosed p"
  "log_metrics ms2 (log_metrics ms p) = log_metrics (ms @ ms2) p"
  by (cases "msgc p"; simp add: log_metrics_def)+

text \<open>The turn without its dead branches: the buffer operations never fail.\<close>

lemma handle_turn_eq:
  "handle_turn E s pk t st =
     (if rErr (t_req t) \<noteq> [] then Return (Stop st)
      else case t_read t of
        Some m \<Rightarrow> Return (Stop (st\<lparr>sent := sent st @ [error_frame (t_req t) m]\<rparr>))
      | None \<Rightarrow>
          bind_outcome
            (asc_callHandler E s pk (reg (cache st) (s_Protocol s))
              ((rw st)\<lparr>reader := reader (rw st) @ rData (t_req t)\<rparr>) (world st))
            (\<lambda>(e, b, w). case e of
               Some m \<Rightarrow> Return (Stop (st\<lparr>rw := b, world := w, sent := sent st @ [error_frame (t_req t) m]\<rparr>))
             | None \<Rightarrow>
                 (let st1 = st\<lparr>rw := b\<lparr>writer := []\<rparr>, world := w,
                        sent := sent st @ [response_frame (t_req t) (writer b)]\<rparr>
                  in Return (if t_write t \<noteq> None then Stop st1
                       else Next (st1\<lparr>cache := log_metrics (turn_metrics s) (cache st)\<rparr>)))))"
  unfolding handle_turn_def Let_def buffer_Write_def ReadAll_def respond_def end_turn_def
    error_frame_def response_frame_def turn_metrics_def
  by (auto split: option.split intro!: arg_cong [where f = "bind_outcome _"] ext)

text \<open>What a turn does to the frames and to the cache.\<close>

lemma handle_turn_frames:
  assumes "handle_turn E s pk t st = Return f"
  shows "case f of
      Next st1 \<Rightarrow> (\<exists>d. sent st1 = sent st @ [response_frame (t_req t) d]) \<and>
        cache st1 = log_metrics (turn_metrics s) (cache st)
    | Stop st1 \<Rightarrow> (sent st1 = sent st \<or> (\<exists>fr. sent st1 = sent st @ [fr] \<and> RawData_ID fr = RawData_ID (t_req t))) \<and>
        cache st1 = cache st"
proof -
  obtain e b w where "rErr (t_req t) = [] \<Longrightarrow> t_read t = None \<Longrightarrow>
      asc_callHandler E s pk (reg (cache st) (s_Protocol s))
        ((rw st)\<lparr>reader := reader (rw st) @ rData (t_req t)\<rparr>) (world st) = Return (e, b, w)"
    using assms by (fastforce simp: handle_turn_eq bind_outcome_Return_iff)
  with assms show ?thesis
    by (auto simp: handle_turn_eq Let_def split: if_splits option.splits)
qed

lemma handle_loop_frames:
  assumes "handle_loop E s pk ts st = Return (ended, st')"
  shows "\<exists>fs k. sent st' = sent st @ fs \<and> length fs \<le> length ts \<and>
      map RawData_ID fs = map (RawData_ID \<circ> t_req) (take (length fs) ts) \<and>
      (\<forall>f \<in> set (take k fs). rErr f = []) \<and> k \<le> length fs \<and>
      cache st' = log_metrics (concat (replicate k (turn_metrics s))) (cache st) \<and>
      (if ended then length fs \<le> Suc k else k = length ts)"
  using assms
proof (induction ts arbitrary: st)
  case Nil
  then show ?case by (intro exI [of _ "[]"] exI [of _ 0]) (simp add: log_metrics_def option.map_id0 option.map_ident)
next
  case (Cons t ts)
  then obtain f where f: "handle_turn E s pk t st = Return f" by (auto simp: bind_outcome_Return_iff)
  show ?case
  proof (cases f)
    case (Stop st1)
    with Cons.prems f have "ended" "st' = st1" by auto
    moreover have "(sent st1 = sent st \<or> (\<exists>fr. sent st1 = sent st @ [fr] \<and> RawData_ID fr = RawData_ID (t_req t))) \<and>
        cache st1 = log_metrics [] (cache st)"
      using handle_turn_frames [OF f] Stop by (simp add: log_metrics_def option.map_ident)
    ultimately show ?thesis
      by (intro exI [of _ "drop (length (sent st)) (sent st1)"] exI [of _ 0]) auto
  next
    case (Next st1)
    with Cons.prems f have "handle_loop E s pk ts st1 = Return (ended, st')" by simp
    from Cons.IH [OF this] obtain fs k where IH: "sent st' = sent st1 @ fs" "length fs \<le> length ts"
        "map RawData_ID fs = map (RawData_ID \<circ> t_req) (take (length fs) ts)"
        "\<forall>f \<in> set (take k fs). rErr f = []" "k \<le> length fs"
        "cache st' = log_metrics (concat (replicate k (turn_metrics s))) (cache st1)"
        "if ended then length fs \<le> Suc k else k = length ts" by blast
    obtain d where "sent st1 = sent st @ [response_frame (t_req t) d]"
        "cache st1 = log_metrics (turn_metrics s) (cache st)"
      using handle_turn_frames [OF f] Next by auto
    with IH show ?thesis
      by (intro exI [of _ "response_frame (t_req t) d # fs"] exI [of _ "Suc k"]) (auto split: if_splits)
  qed
qed

subsection \<open>A reference server\<close>

text \<open>
  The contract of the loop, without buffers and frames: a service \<open>f\<close> maps the available bytes and its
  world to the bytes it leaves unread, its answer and the new world. Unread bytes stay available.
\<close>

type_synonym 'w service_fn = "byte list \<Rightarrow> 'w \<Rightarrow> byte list \<times> byte list \<times> 'w"

fun serve :: "'w service_fn \<Rightarrow> RawData list \<Rightarrow> byte list \<Rightarrow> 'w \<Rightarrow> RawData list \<times> byte list \<times> 'w" where
  "serve f [] rest w = ([], rest, w)"
| "serve f (req # reqs) rest w =
     (let (rest1, out, w1) = f (rest @ rData req) w;
          (frames, rest2, w2) = serve f reqs rest1 w1
      in (response_frame req out # frames, rest2, w2))"

text \<open>A handler that implements \<open>f\<close>: it appends its answer to the writer and returns no error.\<close>

definition implements :: "('h, 'w) handler_env \<Rightarrow> stream \<Rightarrow> PublicKey \<Rightarrow> 'h handler \<Rightarrow> 'w service_fn \<Rightarrow> bool" where
  "implements E s k h f \<longleftrightarrow> (\<forall>b w. asc_callHandler E s (Some (Secp256k1PublicKey k)) (Some h) b w =
     (case f (reader b) w of (rest, out, w1) \<Rightarrow>
        Return (None, \<lparr>reader = rest, writer = writer b @ out\<rparr>, w1)))"

definition clean_turn :: "turn \<Rightarrow> bool" where
  "clean_turn t \<longleftrightarrow> rErr (t_req t) = [] \<and> t_read t = None \<and> t_write t = None"

lemma handle_loop_serve:
  assumes "implements E s k h f" and "\<forall>t \<in> set ts. clean_turn t"
    and "reg (cache st) (s_Protocol s) = Some h" and "writer (rw st) = []"
  shows "\<exists>st'. handle_loop E s (Some (Secp256k1PublicKey k)) ts st = Return (False, st') \<and>
     (sent st', reader (rw st'), world st') =
       apfst ((@) (sent st)) (serve f (map t_req ts) (reader (rw st)) (world st))"
  using assms(2-4)
proof (induction ts arbitrary: st)
  case Nil
  then show ?case by simp
next
  case (Cons t ts)
  obtain rest out w1 where f: "f (reader (rw st) @ rData (t_req t)) (world st) = (rest, out, w1)"
    by (metis prod_cases3)
  let ?st = "st\<lparr>rw := \<lparr>reader = rest, writer = []\<rparr>, world := w1,
    sent := sent st @ [response_frame (t_req t) out], cache := log_metrics (turn_metrics s) (cache st)\<rparr>"
  have "handle_turn E s (Some (Secp256k1PublicKey k)) t st = Return (Next ?st)"
    using assms(1) Cons.prems f by (simp add: handle_turn_eq implements_def clean_turn_def Let_def)
  moreover obtain st' where "handle_loop E s (Some (Secp256k1PublicKey k)) ts ?st = Return (False, st')"
      and "(sent st', reader (rw st'), world st') =
        apfst ((@) (sent ?st)) (serve f (map t_req ts) (reader (rw ?st)) (world ?st))"
    using Cons.IH [of ?st] Cons.prems by auto
  ultimately show ?case by (auto simp: f split: prod.splits)
qed

text \<open>A service that reads everything answers each request from its own data alone.\<close>

lemma serve_all_read:
  "serve (\<lambda>d w. ([], g d, w)) reqs [] w = (map (\<lambda>r. response_frame r (g (rData r))) reqs, [], w)"
  by (induction reqs) auto

text \<open>A service that reads nothing sees the data of all requests so far.\<close>

lemma serve_unread:
  "serve (\<lambda>d w. (d, d, w)) reqs rest w =
     (map (\<lambda>n. response_frame (reqs ! n) (rest @ concat (map rData (take (Suc n) reqs)))) [0..<length reqs],
      rest @ concat (map rData reqs), w)"
proof (induction reqs arbitrary: rest)
  case (Cons r rs)
  then show ?case
    by (simp add: upt_conv_Cons del: upt_Suc flip: map_Suc_upt)
qed simp

subsection \<open>Panics\<close>

definition known_handler :: "'h handler option \<Rightarrow> bool" where
  "known_handler h \<longleftrightarrow> h \<noteq> None \<and> h \<noteq> Some OtherHandler"

definition calm :: "('h, 'w) handler_env \<Rightarrow> bool" where
  "calm E \<longleftrightarrow> (\<forall>h sid pr k b w m. run_StreamHandler E h sid k b w \<noteq> Panic m \<and> run_WithProtocol E h sid pr k b w \<noteq> Panic m)"

lemma pubkeyToEcdsa_Return_iff: "pubkeyToEcdsa pk = Return k \<longleftrightarrow> pk = Some (Secp256k1PublicKey k)"
  by (auto simp: pubkeyToEcdsa_def split: option.split PubKey.split)

lemma pubkeyToEcdsa_Panic_iff: "(\<exists>m. pubkeyToEcdsa pk = Panic m) \<longleftrightarrow> (\<nexists>k. pk = Some (Secp256k1PublicKey k))"
  by (auto simp: pubkeyToEcdsa_def split: option.splits PubKey.splits)

lemma asc_callHandler_Panic_iff:
  assumes "calm E"
  shows "(\<exists>m. asc_callHandler E s pk h b w = Panic m) \<longleftrightarrow> known_handler h \<and> (\<nexists>k. pk = Some (Secp256k1PublicKey k))"
  unfolding pubkeyToEcdsa_Panic_iff [symmetric]
  using assms
  by (auto simp: asc_callHandler_def known_handler_def calm_def bind_outcome_Panic_iff
      split: option.split handler.split)

lemma handle_turn_Panic_iff:
  assumes "calm E"
  shows "(\<exists>m. handle_turn E s pk t st = Panic m) \<longleftrightarrow> rErr (t_req t) = [] \<and> t_read t = None \<and>
    known_handler (reg (cache st) (s_Protocol s)) \<and> (\<nexists>k. pk = Some (Secp256k1PublicKey k))"
  using asc_callHandler_Panic_iff [OF assms, of s pk "reg (cache st) (s_Protocol s)"
      "(rw st)\<lparr>reader := reader (rw st) @ rData (t_req t)\<rparr>" "world st"]
  by (auto simp: handle_turn_eq bind_outcome_Panic_iff Let_def split: option.splits prod.splits)

lemma handle_turn_Next_call:
  "handle_turn E s pk t st = Return (Next st1) \<Longrightarrow> known_handler (reg (cache st) (s_Protocol s)) \<and>
     rErr (t_req t) = [] \<and> t_read t = None"
  by (auto simp: handle_turn_eq asc_callHandler_def known_handler_def split: if_splits option.splits handler.splits)

lemma handle_loop_good_key:
  assumes "calm E"
  shows "handle_loop E s (Some (Secp256k1PublicKey k)) ts st \<noteq> Panic m"
proof (induction ts arbitrary: st)
  case (Cons t ts)
  then show ?case
    using handle_turn_Panic_iff [OF assms, of s "Some (Secp256k1PublicKey k)" t st]
    by (auto simp: bind_outcome_Panic_iff split: flow.splits)
qed simp

subsection \<open>Properties\<close>

lemma doHandleStream_Return:
  assumes "doHandleStream C pp E s ts kc w p = Return (ended, st, kc')"
  obtains pk st0 where "handle_loop E s pk ts \<lparr>rw = \<lparr>reader = [], writer = []\<rparr>, world = w, cache = p, sent = []\<rparr> =
      Return (ended, st0)" and "st = (if ended then st0\<lparr>cache := fullClose (Some s) (cache st0)\<rparr> else st0)"
  using assms by (auto simp: doHandleStream_def bind_outcome_Return_iff split: prod.splits)

text \<open>
  C4: the frames written to a stream answer its requests one by one and in order: the n-th frame carries
  the id of the n-th request, only the last frame can carry an error, and a loop that has not
  returned has answered every request. This holds for all handlers, read errors and write errors.
\<close>

theorem handle_stream_replies:
  assumes "doHandleStream C pp E s ts kc w p = Return (ended, st, kc')"
  shows "length (sent st) \<le> length ts \<and>
    map RawData_ID (sent st) = map (RawData_ID \<circ> t_req) (take (length (sent st)) ts) \<and>
    (\<forall>f \<in> set (butlast (sent st)). rErr f = []) \<and>
    (ended \<or> length (sent st) = length ts \<and> (\<forall>f \<in> set (sent st). rErr f = []))"
proof -
  obtain pk st0 where loop: "handle_loop E s pk ts \<lparr>rw = \<lparr>reader = [], writer = []\<rparr>, world = w, cache = p, sent = []\<rparr> =
      Return (ended, st0)" and "st = (if ended then st0\<lparr>cache := fullClose (Some s) (cache st0)\<rparr> else st0)"
    by (rule doHandleStream_Return [OF assms])
  then have st: "sent st = sent st0" by simp
  obtain fs k where fs: "sent st0 = fs" "length fs \<le> length ts"
      "map RawData_ID fs = map (RawData_ID \<circ> t_req) (take (length fs) ts)"
      "\<forall>f \<in> set (take k fs). rErr f = []" "k \<le> length fs"
      "if ended then length fs \<le> Suc k else k = length ts"
    using handle_loop_frames [OF loop] by auto
  have "length fs - 1 \<le> k" using fs(2,6) by (auto split: if_splits)
  then have "set (butlast fs) \<subseteq> set (take k fs)"
    by (simp add: butlast_conv_take set_take_subset_set_take)
  then have "\<forall>f \<in> set (butlast fs). rErr f = []" using fs(4) by blast
  moreover have "\<not> ended \<Longrightarrow> length fs = length ts \<and> (\<forall>f \<in> set fs. rErr f = [])"
    using fs by auto
  ultimately show ?thesis using fs st by auto
qed

definition ex_env :: "(nat, nat) handler_env" where
  "ex_env = \<lparr>run_StreamHandler = (\<lambda>h sid k b w. Return (if h = 0 then Some ''no'' else None, b, w)),
     run_WithProtocol = (\<lambda>h sid pr k b w. Return (None, \<lparr>reader = [], writer = writer b @ reader b\<rparr>, Suc w))\<rparr>"

definition ex_cache :: "nat handler \<Rightarrow> (nat \<times> (string \<times> string) list, nat) AStreamCache" where
  "ex_cache h = (NewAStreamCatch fifo_lru None)\<lparr>reg := [''/echo/1'' \<mapsto> h]\<rparr>"

definition ex_turn :: "byte list \<Rightarrow> byte list \<Rightarrow> turn" where
  "ex_turn i d = \<lparr>t_req = \<lparr>rId = i, rErr = [], rData = d\<rparr>, t_read = None, t_write = None\<rparr>"

lemma ex_id2pubkey:
  "fst (id2pubkey_nil fifo_lru ex_peer_pkg i (lru_New fifo_lru n)) = Some (Secp256k1PublicKey \<lparr>pubX = 3, pubY = 5\<rparr>)"
  by (simp add: id2pubkey_nil_spec [OF fifo_lru_laws memo_ok_New [OF fifo_lru_laws]])
    (simp add: extracted_def ex_peer_pkg_def ecdsaToPubkey_def)

lemmas ex_stream_defs = ex_env_def ex_cache_def ex_turn_def ex_stream_def NewAStreamCatch_def

theorem handle_stream_replies_witness:
  "\<exists>st kc. doHandleStream fifo_lru ex_peer_pkg ex_env ex_stream [ex_turn [0, 7] [1], ex_turn [8] [2]]
       (lru_New fifo_lru 10) 0 (ex_cache (StreamHandler 0)) = Return (True, st, kc) \<and>
     map RawData_ID (sent st) = [7]"
proof -
  obtain kc where "id2pubkey_nil fifo_lru ex_peer_pkg (s_RemotePeer ex_stream) (lru_New fifo_lru 10) =
      (Some (Secp256k1PublicKey \<lparr>pubX = 3, pubY = 5\<rparr>), kc)"
    using ex_id2pubkey by (metis prod.collapse)
  then obtain st where st: "doHandleStream fifo_lru ex_peer_pkg ex_env ex_stream [ex_turn [0, 7] [1], ex_turn [8] [2]]
       (lru_New fifo_lru 10) 0 (ex_cache (StreamHandler 0)) = Return (True, st, kc)" and "length (sent st) = 1"
    by (simp add: doHandleStream_def handle_turn_eq asc_callHandler_def pubkeyToEcdsa_def ex_stream_defs)
  then show ?thesis
    using handle_stream_replies [OF st] by (auto simp: ex_turn_def RawData_ID_def bytes_to_nat_def)
qed

text \<open>
  C32: the stream is handed to \<open>fullClose\<close> exactly when the loop has returned, and once; the loop leaves
  the pool, the registry and the locks alone, and logs the same four metrics for each completed turn.
\<close>

theorem handle_stream_cleanup:
  assumes "doHandleStream C pp E s ts kc w p = Return (ended, st, kc')"
  shows "fullClosed (cache st) = fullClosed p @ (if ended then [s] else []) \<and>
    pool (cache st) = pool p \<and> reg (cache st) = reg p \<and> kmutex (cache st) = kmutex p \<and>
    (\<exists>k \<le> length (sent st). (ended \<or> k = length ts) \<and>
       msgc (cache st) = map_option (\<lambda>l. l @ concat (replicate k (turn_metrics s))) (msgc p))"
proof -
  obtain pk st0 where loop: "handle_loop E s pk ts \<lparr>rw = \<lparr>reader = [], writer = []\<rparr>, world = w, cache = p, sent = []\<rparr> =
      Return (ended, st0)" and st: "st = (if ended then st0\<lparr>cache := fullClose (Some s) (cache st0)\<rparr> else st0)"
    by (rule doHandleStream_Return [OF assms])
  obtain k where "k \<le> length (sent st0)" "ended \<or> k = length ts"
      "cache st0 = log_metrics (concat (replicate k (turn_metrics s))) p"
    using handle_loop_frames [OF loop] by (simp split: if_splits) blast+
  then show ?thesis
    by (auto simp: st intro!: exI [of _ k]) (auto simp: log_metrics_def)
qed

theorem handle_stream_cleanup_witness:
  "\<exists>st kc. doHandleStream fifo_lru ex_peer_pkg ex_env ex_stream [ex_turn [7] [1]]
       (lru_New fifo_lru 10) 0 (ex_cache (StreamHandler 0)) = Return (True, st, kc) \<and>
     fullClosed (cache st) = [ex_stream]"
proof -
  obtain kc where "id2pubkey_nil fifo_lru ex_peer_pkg (s_RemotePeer ex_stream) (lru_New fifo_lru 10) =
      (Some (Secp256k1PublicKey \<lparr>pubX = 3, pubY = 5\<rparr>), kc)"
    using ex_id2pubkey by (metis prod.collapse)
  then obtain st where st: "doHandleStream fifo_lru ex_peer_pkg ex_env ex_stream [ex_turn [7] [1]]
       (lru_New fifo_lru 10) 0 (ex_cache (StreamHandler 0)) = Return (True, st, kc)"
    by (simp add: doHandleStream_def handle_turn_eq asc_callHandler_def pubkeyToEcdsa_def ex_stream_defs)
  then show ?thesis
    using handle_stream_cleanup [OF st] by (auto simp: ex_cache_def NewAStreamCatch_def)
qed

text \<open>
  C6: the loop refines the reference server. With a registered handler that implements a service \<open>f\<close> and
  readable turns, a call on a fresh stream stays open, its frames are the answers of \<open>serve\<close>, and the
  bytes that the service left unread wait in front of the next request's.
\<close>

theorem handle_stream_serves:
  assumes "reg p (s_Protocol s) = Some h" and "implements E s k h f" and "\<forall>t \<in> set ts. clean_turn t"
    and "lru_laws C ct" and "memo_ok ct (extracted pp) kc"
    and "ID_ExtractPublicKey pp (s_RemotePeer s) = Inr (Secp256k1PublicKey k)"
  shows "\<exists>st kc'. doHandleStream C pp E s ts kc w p = Return (False, st, kc') \<and>
     (sent st, reader (rw st), world st) = serve f (map t_req ts) [] w"
proof -
  have "fst (id2pubkey_nil C pp (s_RemotePeer s) kc) = Some (Secp256k1PublicKey k)"
    using id2pubkey_nil_spec [OF assms(4,5), of "s_RemotePeer s"] assms(6) by (simp add: extracted_def)
  then obtain kc' where "id2pubkey_nil C pp (s_RemotePeer s) kc = (Some (Secp256k1PublicKey k), kc')"
    by (metis prod.collapse)
  then show ?thesis
    using handle_loop_serve [OF assms(2,3), of "\<lparr>rw = \<lparr>reader = [], writer = []\<rparr>, world = w, cache = p, sent = []\<rparr>"]
      assms(1)
    by (auto simp: doHandleStream_def apfst_def map_prod_def split: prod.splits)
qed

theorem handle_stream_serves_witness:
  "\<exists>st kc. doHandleStream fifo_lru ex_peer_pkg ex_env ex_stream [ex_turn [7] [1], ex_turn [8] [2]]
       (lru_New fifo_lru 10) 0 (ex_cache (StreamHandlerWithProtocol 0)) = Return (False, st, kc) \<and>
     map rData (sent st) = [[1], [2]]"
proof -
  have E: "implements ex_env ex_stream \<lparr>pubX = 3, pubY = 5\<rparr> (StreamHandlerWithProtocol 0) (\<lambda>d w. ([], d, Suc w))"
    by (simp add: implements_def asc_callHandler_def pubkeyToEcdsa_def ex_env_def)
  show ?thesis
    using handle_stream_serves [OF _ E _ fifo_lru_laws memo_ok_New [OF fifo_lru_laws, where n = 10],
        of "ex_cache (StreamHandlerWithProtocol 0)" "[ex_turn [7] [1], ex_turn [8] [2]]" ex_peer_pkg 0]
    by (auto simp: ex_cache_def ex_stream_def ex_turn_def clean_turn_def ex_peer_pkg_def ecdsaToPubkey_def)
qed

text \<open>
  C33: with handlers that do not panic themselves, the goroutine of a stream panics exactly when a first
  request arrives on a protocol with a known handler and the remote peer's key is not a secp256k1
  key (or cannot be extracted): the ignored error of \<open>id2pubkey\<close> and the unchecked conversion.
\<close>

theorem handle_stream_panics_iff:
  assumes "calm E" and "lru_laws C ct" and "memo_ok ct (extracted pp) kc"
  shows "(\<exists>m. doHandleStream C pp E s ts kc w p = Panic m) \<longleftrightarrow>
    (\<exists>t ts'. ts = t # ts' \<and> rErr (t_req t) = [] \<and> t_read t = None) \<and>
    known_handler (reg p (s_Protocol s)) \<and>
    (\<nexists>k. ID_ExtractPublicKey pp (s_RemotePeer s) = Inr (Secp256k1PublicKey k))"
proof -
  obtain kc' where id: "id2pubkey_nil C pp (s_RemotePeer s) kc = (extracted pp (s_RemotePeer s), kc')"
    using id2pubkey_nil_spec [OF assms(2,3), of "s_RemotePeer s"] by (metis prod.collapse)
  let ?st = "\<lparr>rw = \<lparr>reader = [], writer = []\<rparr>, world = w, cache = p, sent = []\<rparr>"
  let ?pk = "extracted pp (s_RemotePeer s)"
  have pk: "?pk = Some (Secp256k1PublicKey k) \<longleftrightarrow> ID_ExtractPublicKey pp (s_RemotePeer s) = Inr (Secp256k1PublicKey k)" for k
    by (simp add: extracted_def split: sum.split)
  have "(\<exists>m. doHandleStream C pp E s ts kc w p = Panic m) \<longleftrightarrow> (\<exists>m. handle_loop E s ?pk ts ?st = Panic m)"
    by (auto simp: doHandleStream_def id bind_outcome_Panic_iff)
  also have "\<dots> \<longleftrightarrow> (\<exists>t ts'. ts = t # ts' \<and> (\<exists>m. handle_turn E s ?pk t ?st = Panic m))"
  proof (cases "\<exists>k. ?pk = Some (Secp256k1PublicKey k)")
    case True
    then show ?thesis using handle_loop_good_key [OF assms(1)] handle_turn_Panic_iff [OF assms(1)] by metis
  next
    case False
    then have no_next: "handle_turn E s ?pk t ?st \<noteq> Return (Next st1)" for t st1
      using handle_turn_Next_call handle_turn_Panic_iff [OF assms(1), of s ?pk t ?st] by fastforce
    show ?thesis
    proof (cases ts)
      case (Cons t l)
      then show ?thesis
        using no_next [of t] by (cases "handle_turn E s ?pk t ?st") (auto split: flow.split)
    qed simp
  qed
  also have "\<dots> \<longleftrightarrow> (\<exists>t ts'. ts = t # ts' \<and> rErr (t_req t) = [] \<and> t_read t = None) \<and>
      known_handler (reg p (s_Protocol s)) \<and> (\<nexists>k. ?pk = Some (Secp256k1PublicKey k))"
    by (auto simp: handle_turn_Panic_iff [OF assms(1)])
  finally show ?thesis by (simp add: pk)
qed

theorem handle_stream_panics_iff_witness:
  "\<exists>m. doHandleStream fifo_lru (ex_peer_pkg\<lparr>ID_ExtractPublicKey := (\<lambda>_. Inl ''no key'')\<rparr>) ex_env ex_stream
       [ex_turn [7] [1]] (lru_New fifo_lru 10) 0 (ex_cache (StreamHandler 0)) = Panic m"
proof (rule handle_stream_panics_iff [OF _ fifo_lru_laws memo_ok_New [OF fifo_lru_laws], THEN iffD2])
  show "calm ex_env" by (simp add: calm_def ex_env_def)
qed (simp add: ex_stream_defs known_handler_def)

end
