(* ===== verification/Service.thy ===== *)
theory Service
  imports HandleStream
begin

text \<open>
  The part of the \<open>Service\<close> of \<open>impl.go\<close> that concerns streams: its configuration, its stream cache, the
  handlers it installs on the host, and what it makes the host and the streams do. The host, the peer
  store and the streams are libp2p's: their answers are the record \<open>net\<close>, an argument of every
  operation, and the calls are recorded in order in \<open>trace\<close>.
\<close>

subsection \<open>The world outside\<close>

text \<open>\<open>go-multiaddr\<close>, over its type of addresses; \<open>Decapsulate\<close> may get the nil of a failed parse.\<close>

record 'm ma_pkg =
  NewMultiaddr :: "string \<Rightarrow> string + 'm"
  ValueForProtocol_IPFS :: "'m \<Rightarrow> string + string"
  Decapsulate :: "'m \<Rightarrow> 'm option \<Rightarrow> 'm"
  ma_String :: "'m \<Rightarrow> string"

text \<open>\<open>time.Time\<close> as a deadline: the zero value \<open>notimeout\<close>, or a point in time (nanoseconds).\<close>

datatype deadline = notimeout | At int

text \<open>
  What the environment answers during one call: whether the timers of taking and releasing the lock
  fire, which entry a map iteration yields first, a fresh UUID, the clock, and the results of the
  calls on the host and on streams.
\<close>

record net =
  n_fired :: bool
  n_unlock_fired :: bool
  n_pick :: nat
  n_uuid :: "byte list"
  n_now :: int
  n_NewStream :: "string \<Rightarrow> string \<Rightarrow> string + stream"
  n_ToWriter :: "stream \<Rightarrow> RawData \<Rightarrow> int \<times> err"
  n_Write :: "stream \<Rightarrow> byte list \<Rightarrow> int \<times> err"
  n_FromReader :: "stream \<Rightarrow> RawData \<times> err"
  n_ReadAll :: "stream \<Rightarrow> byte list \<times> err"

text \<open>The calls that the service makes.\<close>

datatype 'm call =
    NewStream string string
  | AddAddrs string "'m option list"
  | SetWriteDeadline stream deadline
  | SetReadDeadline stream deadline
  | ToWriter stream RawData
  | Write stream "byte list"
  | FullClose stream

text \<open>What \<open>host.SetStreamHandler\<close> is given: one of the service's closures over a handler.\<close>

datatype 'h host_handler =
    CallHandler "'h handler"
  | HandleStream
  | RawHandler "'h option"

record ('c, 'h, 'm) Service =
  cfg :: Config
  asc :: "('c, 'h) AStreamCache"
  stream_handlers :: "string \<rightharpoonup> 'h host_handler"
  trace :: "'m call list"

definition emit :: "'m call list \<Rightarrow> ('c, 'h, 'm) Service \<Rightarrow> ('c, 'h, 'm) Service" where
  "emit es srv = srv\<lparr>trace := trace srv @ es\<rparr>"

definition upd_asc :: "(('c, 'h) AStreamCache \<Rightarrow> ('c, 'h) AStreamCache) \<Rightarrow> ('c, 'h, 'm) Service \<Rightarrow> ('c, 'h, 'm) Service" where
  "upd_asc f srv = srv\<lparr>asc := f (asc srv)\<rparr>"

definition has_srv :: "string \<Rightarrow> ('c, 'h, 'm) Service \<Rightarrow> bool" where
  "has_srv pid srv = has pid (Some (asc srv))"

lemma srv_sel [simp]:
  "asc (emit es srv) = asc srv" "cfg (emit es srv) = cfg srv"
  "stream_handlers (emit es srv) = stream_handlers srv" "trace (emit es srv) = trace srv @ es"
  "asc (upd_asc f srv) = f (asc srv)" "cfg (upd_asc f srv) = cfg srv"
  "stream_handlers (upd_asc f srv) = stream_handlers srv" "trace (upd_asc f srv) = trace srv"
  by (simp_all add: emit_def upd_asc_def)

lemma has_srv_iff: "has_srv pid srv \<longleftrightarrow> reg (asc srv) pid \<noteq> None"
  by (simp add: has_srv_def has_def)

subsection \<open>Installing handlers\<close>

definition checkReuse :: "string \<Rightarrow> ('c, 'h, 'm) Service \<Rightarrow> unit outcome" where
  "checkReuse pid srv =
     (if has_srv pid srv
      then Panic ''ReuseStream model just provid : SetHandlerReuseStream(string,ReuseStreamHandler)''
      else Return ())"

definition SetHandler :: "string \<Rightarrow> 'h \<Rightarrow> ('c, 'h, 'm) Service \<Rightarrow> ('c, 'h, 'm) Service outcome" where
  "SetHandler pid handler srv =
     bind_outcome (checkReuse pid srv) (\<lambda>_.
       Return (srv\<lparr>stream_handlers := (stream_handlers srv)(pid \<mapsto> CallHandler (StreamHandler handler))\<rparr>))"

definition SetHandlerWithProtocol :: "string \<Rightarrow> 'h \<Rightarrow> ('c, 'h, 'm) Service \<Rightarrow> ('c, 'h, 'm) Service outcome" where
  "SetHandlerWithProtocol pid handler srv =
     bind_outcome (checkReuse pid srv) (\<lambda>_.
       Return (srv\<lparr>stream_handlers :=
         (stream_handlers srv)(pid \<mapsto> CallHandler (StreamHandlerWithProtocol handler))\<rparr>))"

definition SetHandlerReuseStream :: "string \<Rightarrow> 'h \<Rightarrow> ('c, 'h, 'm) Service \<Rightarrow> ('c, 'h, 'm) Service outcome" where
  "SetHandlerReuseStream pid handler srv =
     bind_outcome (regist pid (StreamHandler handler) (asc srv)) (\<lambda>p.
       Return (srv\<lparr>asc := p, stream_handlers := (stream_handlers srv)(pid \<mapsto> HandleStream)\<rparr>))"

definition SetHandlerReuseStreamWithProtocol :: "string \<Rightarrow> 'h \<Rightarrow> ('c, 'h, 'm) Service \<Rightarrow> ('c, 'h, 'm) Service outcome" where
  "SetHandlerReuseStreamWithProtocol pid handler srv =
     bind_outcome (regist pid (StreamHandlerWithProtocol handler) (asc srv)) (\<lambda>p.
       Return (srv\<lparr>asc := p, stream_handlers := (stream_handlers srv)(pid \<mapsto> HandleStream)\<rparr>))"

text \<open>\<open>SetStreamHandler\<close> takes a function on the raw stream, which may be nil.\<close>

definition SetStreamHandler :: "string \<Rightarrow> 'h option \<Rightarrow> ('c, 'h, 'm) Service \<Rightarrow> ('c, 'h, 'm) Service outcome" where
  "SetStreamHandler protoid handler srv =
     bind_outcome (checkReuse protoid srv) (\<lambda>_.
       Return (srv\<lparr>stream_handlers := (stream_handlers srv)(protoid \<mapsto> RawHandler handler)\<rparr>))"

subsection \<open>Incoming streams\<close>

text \<open>
  \<open>callHandler\<close>: one call of the handler on the stream itself, whose effect is the handler's. The
  deferred \<open>FullClose\<close> runs on every return, and on a panic before the program dies.
\<close>

record ('h, 'w) stream_env =
  on_StreamHandler :: "'h \<Rightarrow> string \<Rightarrow> PublicKey \<Rightarrow> stream \<Rightarrow> 'w \<Rightarrow> (err \<times> 'w) outcome"
  on_WithProtocol :: "'h \<Rightarrow> string \<Rightarrow> string \<Rightarrow> PublicKey \<Rightarrow> stream \<Rightarrow> 'w \<Rightarrow> (err \<times> 'w) outcome"
  on_RawHandler :: "'h \<Rightarrow> stream option \<Rightarrow> 'w \<Rightarrow> 'w outcome"

definition recv_metrics :: "stream \<Rightarrow> metric list" where
  "recv_metrics s = [LogRecvMessage 1, LogRecvMessageStream 1 (s_Protocol s) (s_RemotePeer s)]"

definition callHandler :: "('k, string, PubKey) lru_ops \<Rightarrow> string peer_pkg \<Rightarrow> ('h, 'w) stream_env \<Rightarrow> stream \<Rightarrow>
    'h handler option \<Rightarrow> 'k \<Rightarrow> 'w \<Rightarrow> ('c, 'h, 'm) Service \<Rightarrow> ('k \<times> 'w \<times> ('c, 'h, 'm) Service) outcome" where
  "callHandler C pp E s fn kc w srv =
     (case fn of
        None \<Rightarrow> Return (kc, w, srv)
      | Some fn \<Rightarrow>
          (let srv1 = upd_asc (log_metrics (recv_metrics s)) srv;
               closed = (\<lambda>srv. emit [FullClose s] srv);
               (k, kc1) = id2pubkey C pp (s_RemotePeer s) kc
           in case k of
                Inl e \<Rightarrow> Return (kc1, w, closed srv1)
              | Inr pk \<Rightarrow>
                  bind_outcome (pubkeyToEcdsa (Some pk)) (\<lambda>pub.
                    case fn of
                      StreamHandler h \<Rightarrow>
                        bind_outcome (on_StreamHandler E h (session_key s) pub s w)
                          (\<lambda>(e, w1). Return (kc1, w1, closed srv1))
                    | StreamHandlerWithProtocol h \<Rightarrow>
                        bind_outcome (on_WithProtocol E h (session_key s) (s_Protocol s) pub s w)
                          (\<lambda>(e, w1). Return (kc1, w1, closed srv1))
                    | OtherHandler \<Rightarrow> Panic unknow_stream_handler_type)))"

text \<open>The closure of \<open>SetStreamHandler\<close>; the stream is the caller's to close.\<close>

definition raw_handler :: "('h, 'w) stream_env \<Rightarrow> 'h option \<Rightarrow> stream option \<Rightarrow> 'w \<Rightarrow> ('c, 'h, 'm) Service \<Rightarrow>
    ('w \<times> ('c, 'h, 'm) Service) outcome" where
  "raw_handler E handler a w srv =
     (case handler of
        None \<Rightarrow> Return (w, srv)
      | Some h \<Rightarrow>
          (let srv1 = (case a of None \<Rightarrow> srv | Some s \<Rightarrow> upd_asc (log_metrics (recv_metrics s)) srv)
           in bind_outcome (on_RawHandler E h a w) (\<lambda>w1. Return (w1, srv1))))"

subsection \<open>Which handler serves a protocol\<close>

text \<open>The five ways to install a handler, as steps; a panic is not a step, it ends the program.\<close>

inductive set_step :: "('c, 'h, 'm) Service \<Rightarrow> ('c, 'h, 'm) Service \<Rightarrow> bool" where
  step_SetHandler: "SetHandler pid h srv = Return srv' \<Longrightarrow> set_step srv srv'"
| step_SetHandlerWithProtocol: "SetHandlerWithProtocol pid h srv = Return srv' \<Longrightarrow> set_step srv srv'"
| step_SetHandlerReuseStream: "SetHandlerReuseStream pid h srv = Return srv' \<Longrightarrow> set_step srv srv'"
| step_SetHandlerReuseStreamWithProtocol:
    "SetHandlerReuseStreamWithProtocol pid h srv = Return srv' \<Longrightarrow> set_step srv srv'"
| step_SetStreamHandler: "SetStreamHandler pid hr srv = Return srv' \<Longrightarrow> set_step srv srv'"

text \<open>A protocol is served by the request loop exactly when it is registered, with its lock namespace.\<close>

definition dispatch_ok :: "('c, 'h, 'm) Service \<Rightarrow> bool" where
  "dispatch_ok srv \<longleftrightarrow> (\<forall>pid.
     (stream_handlers srv pid = Some HandleStream \<longleftrightarrow> has_srv pid srv) \<and>
     reg (asc srv) pid \<noteq> Some OtherHandler \<and>
     (has_srv pid srv \<longrightarrow> reglock (kmutex (asc srv)) pid \<noteq> None))"

definition no_handlers :: "('c, 'h, 'm) Service \<Rightarrow> bool" where
  "no_handlers srv \<longleftrightarrow> stream_handlers srv = Map.empty \<and> reg (asc srv) = Map.empty"

lemma SetHandler_dispatch:
  assumes "dispatch_ok srv"
  shows "SetHandler pid h srv = Return srv' \<Longrightarrow> dispatch_ok srv'"
    and "SetHandlerWithProtocol pid h srv = Return srv' \<Longrightarrow> dispatch_ok srv'"
    and "SetStreamHandler pid hr srv = Return srv' \<Longrightarrow> dispatch_ok srv'"
  using assms
  by (auto simp: SetHandler_def SetHandlerWithProtocol_def SetStreamHandler_def checkReuse_def dispatch_ok_def
      has_srv_iff split: if_splits)

lemma reuse_dispatch:
  assumes "dispatch_ok srv" and "regist pid handler (asc srv) = Return p"
  shows "dispatch_ok (srv\<lparr>asc := p, stream_handlers := (stream_handlers srv)(pid \<mapsto> HandleStream)\<rparr>)"
  using assms
  by (auto simp: dispatch_ok_def has_srv_iff regist_def Regist_def make_chan_def Let_def
      split: handler.splits option.splits)

interpretation handlers: safe_system no_handlers set_step dispatch_ok
proof (unfold_locales, goal_cases)
  case (1 s)
  then show ?case by (simp add: no_handlers_def dispatch_ok_def has_srv_iff)
next
  case (2 s t)
  from 2(2) show ?case
    by cases (auto intro: SetHandler_dispatch [OF 2(1)] reuse_dispatch [OF 2(1)]
        simp: SetHandlerReuseStream_def SetHandlerReuseStreamWithProtocol_def bind_outcome_Return_iff)
qed

text \<open>
  C34: after any sequence of handler registrations that did not panic, the incoming streams of a protocol
  go to the request loop exactly when the protocol is in the cache's registry, the registry then
  knows the handler's type, and the protocol is a lock namespace: the senders' view (\<open>has\<close>) and the
  receivers' dispatch never disagree.
\<close>

theorem handlers_agree:
  assumes "reach no_handlers set_step srv"
  shows "(stream_handlers srv pid = Some HandleStream \<longleftrightarrow> has_srv pid srv) \<and>
    (has_srv pid srv \<longrightarrow> known_handler (reg (asc srv) pid) \<and> reglock (kmutex (asc srv)) pid \<noteq> None)"
  using handlers.reach_inv [OF assms] by (auto simp: dispatch_ok_def known_handler_def has_srv_iff)

definition ex_srv :: "(nat \<times> (string \<times> string) list, nat, string) Service" where
  "ex_srv = \<lparr>cfg = zero_Config, asc = NewAStreamCatch fifo_lru (Some []), stream_handlers = Map.empty, trace = []\<rparr>"

theorem handlers_agree_witness:
  "\<exists>srv. SetHandlerReuseStream ''/echo/1'' 0 ex_srv = Return srv \<and> has_srv ''/echo/1'' srv \<and>
     known_handler (reg (asc srv) ''/echo/1'')"
proof -
  obtain srv where srv: "SetHandlerReuseStream ''/echo/1'' 0 ex_srv = Return srv" and has: "has_srv ''/echo/1'' srv"
    by (simp add: SetHandlerReuseStream_def regist_def ex_srv_def NewAStreamCatch_def has_srv_iff
        Regist_def make_chan_def Let_def)
  have "no_handlers ex_srv" by (simp add: no_handlers_def ex_srv_def NewAStreamCatch_def)
  then have "reach no_handlers set_step srv"
    using srv by (intro reach_step [OF reach_init] step_SetHandlerReuseStream)
  then show ?thesis using handlers_agree [of srv "''/echo/1''"] srv has by blast
qed

subsection \<open>What \<open>callHandler\<close> does\<close>

text \<open>
  A stream that arrives for a handler is counted twice in the metrics and closed exactly once on
  every return; when the peer's key cannot be extracted the handler is not called (its world is
  unchanged), and a call that panics does so because of the key's type or in the handler.
\<close>

theorem callHandler_closes:
  assumes "callHandler C pp E s fn kc w srv = Return (kc', w', srv')"
  shows "srv' = (if fn = None then srv else emit [FullClose s] (upd_asc (log_metrics (recv_metrics s)) srv)) \<and>
    (lru_laws C ct \<and> memo_ok ct (extracted pp) kc \<and> (\<exists>e. ID_ExtractPublicKey pp (s_RemotePeer s) = Inl e) \<longrightarrow> w' = w)"
proof (cases fn)
  case None
  then show ?thesis using assms by (simp add: callHandler_def)
next
  case (Some f)
  obtain k kc1 where k: "id2pubkey C pp (s_RemotePeer s) kc = (k, kc1)" by fastforce
  have "lru_laws C ct \<Longrightarrow> memo_ok ct (extracted pp) kc \<Longrightarrow> k = ID_ExtractPublicKey pp (s_RemotePeer s)"
    using id2pubkey_spec(1) [of C ct pp kc "s_RemotePeer s"] k by simp
  then show ?thesis
    using assms Some k
    by (cases f) (auto simp: callHandler_def Let_def bind_outcome_Return_iff split: sum.splits)
qed

theorem callHandler_closes_witness:
  "\<exists>kc. callHandler fifo_lru ex_peer_pkg
       \<lparr>on_StreamHandler = (\<lambda>h sid k s w. Return (Some ''bad'', Suc w)), on_WithProtocol = (\<lambda>h sid pr k s w. Return (None, w)),
        on_RawHandler = (\<lambda>h s w. Return w)\<rparr> ex_stream (Some (StreamHandler (0::nat))) (lru_New fifo_lru 3) (0::nat) ex_srv =
     Return (kc, 1, emit [FullClose ex_stream] (upd_asc (log_metrics (recv_metrics ex_stream)) ex_srv))"
proof -
  let ?E = "\<lparr>on_StreamHandler = (\<lambda>h sid k s w. Return (Some ''bad'', Suc w)), on_WithProtocol = (\<lambda>h sid pr k s w. Return (None, w)),
        on_RawHandler = (\<lambda>h s w. Return w)\<rparr> :: (nat, nat) stream_env"
  obtain kc where "id2pubkey fifo_lru ex_peer_pkg (s_RemotePeer ex_stream) (lru_New fifo_lru 3) =
      (Inr (ecdsaToPubkey \<lparr>pubX = 3, pubY = 5\<rparr>), kc)"
    using id2pubkey_spec(1) [OF fifo_lru_laws memo_ok_New [OF fifo_lru_laws, where n = 3], of ex_peer_pkg "s_RemotePeer ex_stream"]
    by (metis ex_peer_pkg_def peer_pkg.select_convs(3) prod.collapse)
  then obtain srv where call: "callHandler fifo_lru ex_peer_pkg ?E ex_stream (Some (StreamHandler 0)) (lru_New fifo_lru 3) 0 ex_srv =
      Return (kc, 1, srv)"
    by (simp add: callHandler_def)
  then show ?thesis using callHandler_closes [OF call] by auto
qed

end
