(* ===== verification/Messaging.thy ===== *)
theory Messaging
  imports Service
begin

text \<open>
  Sending and requesting, \<open>impl.go\<close>: \<open>sendMsg\<close> with its two ways of getting a stream, and the entry points
  \<open>SendMsg\<close>, \<open>SendMsgAfterClose\<close>, \<open>RequestWithTimeout\<close> and \<open>Request\<close> around it. Deferred calls run where the
  function returns, in reverse order. A panic ends the program, so nothing is recorded after one.
\<close>

type_synonym ('c, 'h, 'm) send_result = "(string \<times> stream option \<times> int \<times> err) \<times> ('c, 'h, 'm) Service"

subsection \<open>sendMsg\<close>

text \<open>
  The address form of the target: when \<open>to\<close> is not a peer id it must be a multiaddress with one. Its
  address, and with relaying the circuit address, go to the peer store. The parse errors of the two
  addresses that the code builds itself are ignored as in the code.
\<close>

definition addr_of :: "string + 'm \<Rightarrow> 'm option" where
  "addr_of x = (case x of Inl _ \<Rightarrow> None | Inr m \<Rightarrow> Some m)"

definition resolve_to :: "string peer_pkg \<Rightarrow> 'm ma_pkg \<Rightarrow> string \<Rightarrow> ('c, 'h, 'm) Service \<Rightarrow>
    (string \<times> err) \<times> 'm option list" where
  "resolve_to pp mp to srv =
     (case NewMultiaddr mp to of
        Inl e \<Rightarrow> (('''', Some e), [])
      | Inr ipfsaddr \<Rightarrow>
          (case ValueForProtocol_IPFS mp ipfsaddr of
             Inl e \<Rightarrow> (('''', Some e), [])
           | Inr pid \<Rightarrow>
               (case peer_Decode pp pid of
                  Inl e \<Rightarrow> (('''', Some e), [])
                | Inr peerid \<Rightarrow>
                    (let targetPeerAddr = addr_of (NewMultiaddr mp (''/p2p/'' @ peerid));
                         targetAddr = Decapsulate mp ipfsaddr targetPeerAddr;
                         raddr = [Some targetAddr];
                         raddr = (if Relay (cfg srv)
                           then raddr @ [addr_of (NewMultiaddr mp (''/p2p-circuit/ipfs/'' @ peerid))] else raddr)
                     in if length raddr = 0 then ((peerid, Some ''no good addrs''), [])
                        else ((peerid, None), raddr)))))"

text \<open>The stream found in the cache: the request frame is written to it; a write error drops the key.\<close>

definition send_reused :: "'c lru \<Rightarrow> net \<Rightarrow> string \<Rightarrow> string \<Rightarrow> byte list \<Rightarrow> string \<Rightarrow> err \<Rightarrow> stream \<Rightarrow>
    ('c, 'h, 'm) Service \<Rightarrow> ('c, 'h, 'm) send_result outcome" where
  "send_reused L N to protocolID msg peerid err s srv =
     (let req = NewRawData (n_uuid N) None msg;
          (n, err2) = n_ToWriter N s req;
          srv1 = emit [ToWriter s req] srv
      in case err2 of
           Some e \<Rightarrow>
             bind_outcome (del2 L to protocolID [] (asc srv1))
               (\<lambda>p. Return ((peerid, Some s, 0, Some e), srv1\<lparr>asc := p\<rparr>))
         | None \<Rightarrow> Return ((peerid, Some s, n, err), srv1))"

text \<open>The write on a stream that was just opened; the deadline brackets it when there is one.\<close>

definition send_opened :: "net \<Rightarrow> string \<Rightarrow> byte list \<Rightarrow> string \<Rightarrow> stream \<Rightarrow> ('c, 'h, 'm) Service \<Rightarrow>
    ('c, 'h, 'm) send_result" where
  "send_opened N protocolID msg peerid s srv =
     (if has_srv protocolID srv then
        (let req = NewRawData (n_uuid N) None msg;
             (n, e) = n_ToWriter N s req;
             srv1 = emit [ToWriter s req] srv
         in case e of
              Some e \<Rightarrow> ((peerid, Some s, 0, Some e), srv1)
            | None \<Rightarrow> ((peerid, Some s, n, None), upd_asc (put s) srv1))
      else
        (let (n, e) = n_Write N s msg in ((peerid, Some s, n, e), emit [Write s msg] srv)))"

text \<open>A write deadline around an operation: set before it, cleared by a deferred call.\<close>

definition with_deadline :: "deadline \<Rightarrow> stream \<Rightarrow> (('c, 'h, 'm) Service \<Rightarrow> 'r \<times> ('c, 'h, 'm) Service) \<Rightarrow>
    ('c, 'h, 'm) Service \<Rightarrow> 'r \<times> ('c, 'h, 'm) Service" where
  "with_deadline tmo s f srv =
     (if tmo \<noteq> notimeout then
        (let (r, srv1) = f (emit [SetWriteDeadline s tmo] srv) in (r, emit [SetWriteDeadline s notimeout] srv1))
      else f srv)"

text \<open>The target: the peer id that was decoded, or else the one of the address form.\<close>

definition target :: "string peer_pkg \<Rightarrow> 'm ma_pkg \<Rightarrow> string \<Rightarrow> string \<Rightarrow> err \<Rightarrow> ('c, 'h, 'm) Service \<Rightarrow>
    (string \<times> err) \<times> 'm option list" where
  "target pp mp to peerid err srv =
     (case err of None \<Rightarrow> ((peerid, None), []) | Some _ \<Rightarrow> resolve_to pp mp to srv)"

definition add_addrs :: "string \<Rightarrow> 'm option list \<Rightarrow> ('c, 'h, 'm) Service \<Rightarrow> ('c, 'h, 'm) Service" where
  "add_addrs peerid raddr srv = (if raddr = [] then srv else emit [AddAddrs peerid raddr] srv)"

definition open_stream :: "string peer_pkg \<Rightarrow> 'm ma_pkg \<Rightarrow> net \<Rightarrow> string \<Rightarrow> string \<Rightarrow> byte list \<Rightarrow> deadline \<Rightarrow>
    string \<Rightarrow> err \<Rightarrow> ('c, 'h, 'm) Service \<Rightarrow> ('c, 'h, 'm) send_result" where
  "open_stream pp mp N to protocolID msg tmo peerid0 err0 srv0 =
     (let t = target pp mp to peerid0 err0 srv0; peerid = fst (fst t);
          srv = add_addrs peerid (snd t) srv0
      in case snd (fst t) of
           Some e \<Rightarrow> ((peerid, None, 0, Some e), srv)
         | None \<Rightarrow>
             (let srv1 = emit [NewStream peerid protocolID] srv in
              case n_NewStream N peerid protocolID of
                Inl e \<Rightarrow> ((peerid, None, 0, Some e), srv1)
              | Inr s \<Rightarrow> with_deadline tmo s (send_opened N protocolID msg peerid s) srv1))"

definition sendMsg :: "'c lru \<Rightarrow> string peer_pkg \<Rightarrow> 'm ma_pkg \<Rightarrow> net \<Rightarrow> string \<Rightarrow> string \<Rightarrow> byte list \<Rightarrow> deadline \<Rightarrow>
    ('c, 'h, 'm) Service \<Rightarrow> ('c, 'h, 'm) send_result outcome" where
  "sendMsg L pp mp N to protocolID msg tmo srv =
     (let (peerid, err) = (case peer_Decode pp to of Inl e \<Rightarrow> ('''', Some e) | Inr i \<Rightarrow> (i, None));
          deferred = (\<lambda>(r, srv). (r, upd_asc
             (log_metrics [LogSentMessage 1, LogSentMessageStream 1 protocolID (fst r)]) srv));
          fresh = (\<lambda>srv. Return (open_stream pp mp N to protocolID msg tmo peerid err srv))
      in map_outcome deferred
        (if has_srv protocolID srv then
           (case get (n_pick N) to protocolID (asc srv) of
              (Some s, ok, expire) \<Rightarrow>
                if ok then send_reused L N to protocolID msg peerid err s srv
                else if expire then
                  bind_outcome (asc_del L s (asc srv)) (\<lambda>p. fresh (srv\<lparr>asc := p\<rparr>))
                else fresh srv
            | (None, ok, expire) \<Rightarrow>
                if ok \<or> expire then Panic ''nil stream'' else fresh srv)
         else fresh srv))"

subsection \<open>The entry points\<close>

definition reuse_refused :: "string \<Rightarrow> string" where
  "reuse_refused protocolID = ''This method not support ReuseStream channel ('' @ protocolID @ ''), ''"

definition SendMsg :: "'c lru \<Rightarrow> string peer_pkg \<Rightarrow> 'm ma_pkg \<Rightarrow> net \<Rightarrow> string \<Rightarrow> string \<Rightarrow> byte list \<Rightarrow>
    ('c, 'h, 'm) Service \<Rightarrow> ('c, 'h, 'm) send_result outcome" where
  "SendMsg L pp mp N to protocolID msg srv =
     (if has_srv protocolID srv then Return (('''', None, 0, Some (reuse_refused protocolID)), srv)
      else sendMsg L pp mp N to protocolID msg notimeout srv)"

text \<open>
  The lock bracket that the two waiting entry points share: take the lock of a reused protocol or
  return its error, run the body, release in a deferred call.
\<close>

definition with_lock :: "'c lru \<Rightarrow> net \<Rightarrow> string \<Rightarrow> string \<Rightarrow> (string \<Rightarrow> 'r) \<Rightarrow>
    (('c, 'h, 'm) Service \<Rightarrow> ('r \<times> ('c, 'h, 'm) Service) outcome) \<Rightarrow>
    ('c, 'h, 'm) Service \<Rightarrow> ('r \<times> ('c, 'h, 'm) Service) outcome" where
  "with_lock L N to protocolID failed body srv =
     (if has_srv protocolID srv then
        (let (e, p) = takelock L to protocolID (n_fired N) (asc srv);
             srv1 = srv\<lparr>asc := p\<rparr>
         in case e of
              Some e \<Rightarrow> Return (failed e, srv1)
            | None \<Rightarrow>
                map_outcome (\<lambda>(r, srv2). (r, upd_asc (\<lambda>p. snd (asc_unlock L to protocolID (n_unlock_fired N) p)) srv2))
                  (body srv1))
      else body srv)"

definition drop_key_srv :: "'c lru \<Rightarrow> string \<Rightarrow> string \<Rightarrow> ('c, 'h, 'm) Service \<Rightarrow> ('c, 'h, 'm) Service outcome" where
  "drop_key_srv L to protocolID srv =
     bind_outcome (del2 L to protocolID [] (asc srv)) (\<lambda>p. Return (srv\<lparr>asc := p\<rparr>))"

definition SendMsgAfterClose_body :: "'c lru \<Rightarrow> string peer_pkg \<Rightarrow> 'm ma_pkg \<Rightarrow> net \<Rightarrow> string \<Rightarrow> string \<Rightarrow>
    byte list \<Rightarrow> ('c, 'h, 'm) Service \<Rightarrow> (err \<times> ('c, 'h, 'm) Service) outcome" where
  "SendMsgAfterClose_body L pp mp N to protocolID msg srv =
     bind_outcome (sendMsg L pp mp N to protocolID msg notimeout srv) (\<lambda>((_, s, _, err), srv1).
       case err of
         Some e \<Rightarrow> Return (Some e, srv1)
       | None \<Rightarrow>
           (case s of
              None \<Rightarrow> Panic ''FromReader on a nil stream''
            | Some s \<Rightarrow>
                if \<not> has_srv protocolID srv1 then Return (None, emit [FullClose s] srv1)
                else (let (rsp, e) = n_FromReader N s in
                  case e of
                    Some e \<Rightarrow> bind_outcome (drop_key_srv L to protocolID srv1) (\<lambda>srv2. Return (Some e, srv2))
                  | None \<Rightarrow>
                      if rErr rsp \<noteq> [] then
                        bind_outcome (drop_key_srv L to protocolID srv1) (\<lambda>srv2. Return (Some (rErr rsp), srv2))
                      else Return (None, emit [SetReadDeadline s notimeout] srv1))))"

definition SendMsgAfterClose :: "'c lru \<Rightarrow> string peer_pkg \<Rightarrow> 'm ma_pkg \<Rightarrow> net \<Rightarrow> string \<Rightarrow> string \<Rightarrow>
    byte list \<Rightarrow> ('c, 'h, 'm) Service \<Rightarrow> (err \<times> ('c, 'h, 'm) Service) outcome" where
  "SendMsgAfterClose L pp mp N to protocolID msg srv =
     with_lock L N to protocolID Some (SendMsgAfterClose_body L pp mp N to protocolID msg) srv"

text \<open>A nil slice and an empty one are not told apart by the callers; both are \<open>[]\<close>.\<close>

definition Request_body :: "'c lru \<Rightarrow> string peer_pkg \<Rightarrow> 'm ma_pkg \<Rightarrow> net \<Rightarrow> string \<Rightarrow> string \<Rightarrow>
    byte list \<Rightarrow> int \<Rightarrow> ('c, 'h, 'm) Service \<Rightarrow> ((byte list \<times> err) \<times> ('c, 'h, 'm) Service) outcome" where
  "Request_body L pp mp N to proto pkg tmo srv =
     (let tot = (if 0 < tmo then At (n_now N + tmo) else notimeout) in
      bind_outcome (sendMsg L pp mp N to proto pkg tot srv) (\<lambda>((_, s, _, err), srv1).
        case err of
          Some e \<Rightarrow> Return (([], Some e), srv1)
        | None \<Rightarrow>
            (case s of
               None \<Rightarrow> Panic ''SetReadDeadline on a nil stream''
             | Some s \<Rightarrow>
                 (let srv2 = emit [SetReadDeadline s (if tot \<noteq> notimeout then At (n_now N + tmo)
                        else At (n_now N + 20 * 1000000000))] srv1;
                      deferred = (\<lambda>srv. emit (SetReadDeadline s notimeout #
                        (if has_srv proto srv then [] else [FullClose s])) srv)
                  in if has_srv proto srv2 then
                       (let (rsp, e) = n_FromReader N s in
                        case e of
                          Some e \<Rightarrow> bind_outcome (drop_key_srv L to proto srv2) (\<lambda>srv3. Return (([], Some e), deferred srv3))
                        | None \<Rightarrow>
                            if rErr rsp \<noteq> [] then
                              bind_outcome (drop_key_srv L to proto srv2)
                                (\<lambda>srv3. Return (([], Some (rErr rsp)), deferred srv3))
                            else Return ((rData rsp, None), deferred srv2))
                     else
                       (let (buf, e) = n_ReadAll N s in
                        case e of
                          Some e \<Rightarrow> Return (([], Some e), deferred srv2)
                        | None \<Rightarrow> Return ((buf, None), deferred srv2))))))"

definition RequestWithTimeout :: "'c lru \<Rightarrow> string peer_pkg \<Rightarrow> 'm ma_pkg \<Rightarrow> net \<Rightarrow> string \<Rightarrow> string \<Rightarrow>
    byte list \<Rightarrow> int \<Rightarrow> ('c, 'h, 'm) Service \<Rightarrow> ((byte list \<times> err) \<times> ('c, 'h, 'm) Service) outcome" where
  "RequestWithTimeout L pp mp N to proto pkg tmo srv =
     with_lock L N to proto (\<lambda>e. ([], Some e)) (Request_body L pp mp N to proto pkg tmo) srv"

definition Request :: "'c lru \<Rightarrow> string peer_pkg \<Rightarrow> 'm ma_pkg \<Rightarrow> net \<Rightarrow> string \<Rightarrow> string \<Rightarrow>
    byte list \<Rightarrow> ('c, 'h, 'm) Service \<Rightarrow> ((byte list \<times> err) \<times> ('c, 'h, 'm) Service) outcome" where
  "Request L pp mp N to proto pkg srv = RequestWithTimeout L pp mp N to proto pkg 0 srv"

end
