(* ===== verification/MessagingSpec.thy ===== *)
theory MessagingSpec
  imports Messaging
begin

text \<open>
  What messaging promises: every entry point keeps the service well-formed and leaves the lock table as it
  found it, on every branch; a failed exchange leaves no stream behind for its key; the streams of
  protocols that are not reused are closed. The locks come from the interface \<open>key_lock\<close>, the pool from
  \<open>stream_pool\<close>, through their interpretations \<open>km\<close> and \<open>asc\<close>.
\<close>

subsection \<open>The invariant of the service, and what an exchange may change\<close>

definition srv_wf :: "'l lru \<Rightarrow> ('l \<Rightarrow> string \<rightharpoonup> string) \<Rightarrow> ('l, 'h, 'm) Service \<Rightarrow> bool" where
  "srv_wf L ct srv \<longleftrightarrow>
     pool_wf (asc srv) \<and> km_inv L ct (kmutex (asc srv)) \<and>
     (\<forall>pid. has_srv pid srv \<longrightarrow> pid \<noteq> [] \<and> length pid \<noteq> 40 \<and> reglock (kmutex (asc srv)) pid \<noteq> None)"

definition body_ok :: "'l lru \<Rightarrow> ('l \<Rightarrow> string \<rightharpoonup> string) \<Rightarrow> string \<Rightarrow> string \<Rightarrow>
    ('l, 'h, 'm) Service \<Rightarrow> ('l, 'h, 'm) Service \<Rightarrow> bool" where
  "body_ok L ct to pr srv srv' \<longleftrightarrow>
     srv_wf L ct srv' \<and> reg (asc srv') = reg (asc srv) \<and> cfg srv' = cfg srv \<and>
     stream_handlers srv' = stream_handlers srv \<and> (\<exists>es. trace srv' = trace srv @ es) \<and>
     (\<forall>n. n \<noteq> lock_name pr to \<longrightarrow> held (kmutex (asc srv')) n = held (kmutex (asc srv)) n) \<and>
     (has_srv pr srv \<or> kmutex (asc srv') = kmutex (asc srv) \<and> pool (asc srv') = pool (asc srv) \<and>
        fullClosed (asc srv') = fullClosed (asc srv))"

lemma body_ok_refl: "srv_wf L ct srv \<Longrightarrow> body_ok L ct to pr srv srv"
  by (simp add: body_ok_def)

lemma body_ok_trans: "body_ok L ct to pr s1 s2 \<Longrightarrow> body_ok L ct to pr s2 s3 \<Longrightarrow> body_ok L ct to pr s1 s3"
  unfolding body_ok_def has_srv_iff by (metis append.assoc)

lemma body_ok_has: "body_ok L ct to pr srv srv' \<Longrightarrow> has_srv pid srv' = has_srv pid srv"
  by (simp add: body_ok_def has_srv_iff)

lemma body_ok_emit: "body_ok L ct to pr srv srv' \<Longrightarrow> body_ok L ct to pr srv (emit es srv')"
  by (auto simp: body_ok_def srv_wf_def has_srv_iff)

lemma body_ok_log: "body_ok L ct to pr srv srv' \<Longrightarrow> body_ok L ct to pr srv (upd_asc (log_metrics ms) srv')"
  by (simp add: body_ok_def srv_wf_def has_srv_iff pool_wf_def)

lemma put_sel [simp]: "reg (put s p) = reg p" "kmutex (put s p) = kmutex p" "fullClosed (put s p) = fullClosed p"
  by (auto simp: put_def newStreamSessionKey_def Let_def split: option.split)

lemma body_ok_put: "body_ok L ct to pr srv srv' \<Longrightarrow> has_srv pr srv \<Longrightarrow> body_ok L ct to pr srv (upd_asc (put s) srv')"
  by (simp add: body_ok_def srv_wf_def has_srv_iff asc.add_inv)

lemma km_Clean_other: "km_inv L ct k \<Longrightarrow> n \<noteq> lock_name pr to \<Longrightarrow> held (Clean L pr to k) n = held k n"
  using km.drop_held [of L ct k "(pr, to)"] by auto

lemma drop_key_srv_eq:
  "pr \<noteq> [] \<Longrightarrow> drop_key_srv L to pr srv = Return (upd_asc (drop_all L to pr) srv)"
  by (simp add: drop_key_srv_def del2_drop_all upd_asc_def)

lemma body_ok_drop:
  assumes ok: "body_ok L ct to pr srv srv'" and has: "has_srv pr srv"
  shows "body_ok L ct to pr srv (upd_asc (drop_all L to pr) srv')"
proof -
  have "pr \<noteq> []" using ok has by (metis body_ok_def body_ok_has srv_wf_def)
  have wf: "pool_wf (asc srv')" and km: "km_inv L ct (kmutex (asc srv'))"
    and reg: "\<And>pid. has_srv pid srv' \<Longrightarrow> pid \<noteq> [] \<and> length pid \<noteq> 40 \<and> reglock (kmutex (asc srv')) pid \<noteq> None"
    using ok by (simp_all add: body_ok_def srv_wf_def)
  have "srv_wf L ct (upd_asc (drop_all L to pr) srv')"
    using drop_all_wf [OF wf \<open>pr \<noteq> []\<close>] Clean_km_inv [OF km] Clean_registered [OF km] reg \<open>pr \<noteq> []\<close>
    by (auto simp: srv_wf_def has_srv_iff)
  then show ?thesis
    using ok has \<open>pr \<noteq> []\<close> km_Clean_other [OF km, of _ pr to] by (simp add: body_ok_def)
qed

lemmas body_ok_intros = body_ok_refl body_ok_emit body_ok_log body_ok_put body_ok_drop

subsection \<open>sendMsg\<close>

lemma get_shape: "get n to pr p = (fst (get n to pr p), fst (get n to pr p) \<noteq> None, False)"
  by (auto simp: get_def split: option.split)

definition decode_to :: "string peer_pkg \<Rightarrow> string \<Rightarrow> string \<times> err" where
  "decode_to pp to = (case peer_Decode pp to of Inl e \<Rightarrow> ('''', Some e) | Inr i \<Rightarrow> (i, None))"

definition log_sent :: "string \<Rightarrow> ('c, 'h, 'm) send_result \<Rightarrow> ('c, 'h, 'm) send_result" where
  "log_sent pr x = (fst x, upd_asc (log_metrics [LogSentMessage 1, LogSentMessageStream 1 pr (fst (fst x))]) (snd x))"

text \<open>\<open>sendMsg\<close> without the dead expiry branches.\<close>

lemma sendMsg_eq:
  "sendMsg L pp mp N to pr msg tmo srv =
     map_outcome (log_sent pr)
       (case if has_srv pr srv then fst (get (n_pick N) to pr (asc srv)) else None of
          Some s \<Rightarrow> send_reused L N to pr msg (fst (decode_to pp to)) (snd (decode_to pp to)) s srv
        | None \<Rightarrow> Return (open_stream pp mp N to pr msg tmo (fst (decode_to pp to)) (snd (decode_to pp to)) srv))"
proof -
  have log: "(\<lambda>(r, srv). (r, upd_asc (log_metrics [LogSentMessage 1, LogSentMessageStream 1 pr (fst r)]) srv)) = log_sent pr"
    by (auto simp: log_sent_def)
  show ?thesis
    unfolding sendMsg_def decode_to_def [symmetric] log Let_def
    by (subst get_shape) (auto split: prod.split option.split)
qed

lemma send_reused_eq:
  "pr \<noteq> [] \<Longrightarrow> send_reused L N to pr msg i e s srv =
     (let req = NewRawData (n_uuid N) None msg; srv1 = emit [ToWriter s req] srv in
      Return (case snd (n_ToWriter N s req) of
          Some e2 \<Rightarrow> ((i, Some s, 0, Some e2), upd_asc (drop_all L to pr) srv1)
        | None \<Rightarrow> ((i, Some s, fst (n_ToWriter N s req), e), srv1)))"
  by (auto simp: send_reused_def Let_def del2_drop_all upd_asc_def split: prod.split option.split)

lemma send_opened_ok:
  "body_ok L ct to pr srv srv1 \<Longrightarrow> body_ok L ct to pr srv (snd (send_opened N pr msg i s srv1))"
  using body_ok_has [of L ct to pr srv srv1 pr]
  by (auto simp: send_opened_def Let_def split: prod.split option.split intro: body_ok_intros)

lemma with_deadline_ok:
  assumes "\<And>srv1. body_ok L ct to pr srv srv1 \<Longrightarrow> body_ok L ct to pr srv (snd (f srv1))"
    and "body_ok L ct to pr srv srv0"
  shows "body_ok L ct to pr srv (snd (with_deadline tmo s f srv0))"
  using assms by (auto simp: with_deadline_def split_def Let_def intro: body_ok_emit)

lemma open_stream_ok:
  "body_ok L ct to pr srv srv0 \<Longrightarrow> body_ok L ct to pr srv (snd (open_stream pp mp N to pr msg tmo i e srv0))"
  by (auto simp: open_stream_def Let_def add_addrs_def split: option.split sum.split
      intro!: with_deadline_ok send_opened_ok body_ok_emit)

lemma sendMsg_ok:
  assumes wf: "srv_wf L ct srv"
  obtains r srv' where "sendMsg L pp mp N to pr msg tmo srv = Return (r, srv')" and "body_ok L ct to pr srv srv'"
proof -
  note ok = body_ok_refl [OF wf]
  have "\<exists>x. sendMsg L pp mp N to pr msg tmo srv = Return (log_sent pr x) \<and> body_ok L ct to pr srv (snd x)"
  proof (cases "if has_srv pr srv then fst (get (n_pick N) to pr (asc srv)) else None")
    case None
    show ?thesis
      unfolding sendMsg_eq None option.case map_outcome.simps
      by (rule exI, rule conjI, rule refl, rule open_stream_ok [OF ok])
  next
    case (Some s)
    then have "has_srv pr srv" by (auto split: if_splits)
    then have "pr \<noteq> []" using wf by (simp add: srv_wf_def)
    moreover have "body_ok L ct to pr srv (emit es srv)" "body_ok L ct to pr srv (upd_asc (drop_all L to pr) (emit es srv))" for es
      using body_ok_emit [OF ok] body_ok_drop \<open>has_srv pr srv\<close> by blast+
    ultimately show ?thesis
      using Some by (auto simp: sendMsg_eq send_reused_eq Let_def simp del: split_paired_Ex split: option.split)
  qed
  then obtain x where "sendMsg L pp mp N to pr msg tmo srv = Return (log_sent pr x)" "body_ok L ct to pr srv (snd x)"
    by blast
  then show ?thesis
    using that [of "fst (log_sent pr x)" "snd (log_sent pr x)"] by (simp add: log_sent_def body_ok_log)
qed

subsection \<open>The lock bracket\<close>

lemma takelock_eq:
  "takelock L to pr b p = (fst (Lock L pr to b (kmutex p)), p\<lparr>kmutex := snd (Lock L pr to b (kmutex p))\<rparr>)"
  "asc_unlock L to pr b p = (fst (Unlock L pr to b (kmutex p)), p\<lparr>kmutex := snd (Unlock L pr to b (kmutex p))\<rparr>)"
  by (simp_all add: takelock_def asc_unlock_def split_def Let_def)

definition locked_srv :: "'l lru \<Rightarrow> net \<Rightarrow> string \<Rightarrow> string \<Rightarrow> ('l, 'h, 'm) Service \<Rightarrow> ('l, 'h, 'm) Service" where
  "locked_srv L N to pr srv = upd_asc (\<lambda>p. snd (takelock L to pr (n_fired N) p)) srv"

definition unlocked_srv :: "'l lru \<Rightarrow> net \<Rightarrow> string \<Rightarrow> string \<Rightarrow> ('l, 'h, 'm) Service \<Rightarrow> ('l, 'h, 'm) Service" where
  "unlocked_srv L N to pr srv = upd_asc (\<lambda>p. snd (asc_unlock L to pr (n_unlock_fired N) p)) srv"

lemma with_lock_eq:
  "with_lock L N to pr failed body srv =
     (if \<not> has_srv pr srv then body srv
      else case fst (takelock L to pr (n_fired N) (asc srv)) of
        Some e \<Rightarrow> Return (failed e, locked_srv L N to pr srv)
      | None \<Rightarrow> map_outcome (\<lambda>x. (fst x, unlocked_srv L N to pr (snd x))) (body (locked_srv L N to pr srv)))"
  by (auto simp: with_lock_def locked_srv_def unlocked_srv_def upd_asc_def split_def Let_def split: option.split)

lemma locked_srv_sel [simp]:
  "pool (asc (locked_srv L N to pr srv)) = pool (asc srv)" "reg (asc (locked_srv L N to pr srv)) = reg (asc srv)"
  "fullClosed (asc (locked_srv L N to pr srv)) = fullClosed (asc srv)" "trace (locked_srv L N to pr srv) = trace srv"
  "cfg (locked_srv L N to pr srv) = cfg srv"
  "kmutex (asc (locked_srv L N to pr srv)) = snd (Lock L pr to (n_fired N) (kmutex (asc srv)))"
  "pool (asc (unlocked_srv L N to pr srv)) = pool (asc srv)" "reg (asc (unlocked_srv L N to pr srv)) = reg (asc srv)"
  "fullClosed (asc (unlocked_srv L N to pr srv)) = fullClosed (asc srv)" "trace (unlocked_srv L N to pr srv) = trace srv"
  "kmutex (asc (unlocked_srv L N to pr srv)) = snd (Unlock L pr to (n_unlock_fired N) (kmutex (asc srv)))"
  by (simp_all add: locked_srv_def unlocked_srv_def takelock_eq)

lemma srv_wf_kmutex:
  assumes "srv_wf L ct srv" and "pool (asc srv') = pool (asc srv)" and "reg (asc srv') = reg (asc srv)"
    and "km_inv L ct (kmutex (asc srv'))"
    and "\<And>x. reglock (kmutex (asc srv)) x \<noteq> None \<Longrightarrow> length x \<noteq> 40 \<Longrightarrow> reglock (kmutex (asc srv')) x \<noteq> None"
  shows "srv_wf L ct srv'"
  using assms unfolding srv_wf_def has_srv_iff pool_wf_def by metis

lemma locked_srv_wf:
  assumes wf: "srv_wf L ct srv"
  shows "srv_wf L ct (locked_srv L N to pr srv)" and "srv_wf L ct (unlocked_srv L N to pr srv)"
proof -
  have km: "km_inv L ct (kmutex (asc srv))" using wf by (simp add: srv_wf_def)
  show "srv_wf L ct (locked_srv L N to pr srv)"
    by (rule srv_wf_kmutex [OF wf]) (simp_all add: Lock_km_inv [OF km] Lock_registered [OF km] del: not_None_eq)
  show "srv_wf L ct (unlocked_srv L N to pr srv)"
    by (rule srv_wf_kmutex [OF wf]) (simp_all add: Unlock_km_inv [OF km] Unlock_reglock [OF km] del: not_None_eq)
qed

text \<open>
  Whatever body keeps the service well-formed and the other locks, the bracket around it returns, and
  leaves the table of held locks as it was.
\<close>

lemma with_lock_spec:
  assumes wf: "srv_wf L ct srv" and fires: "\<not> n_unlock_fired N"
    and body: "\<And>s. srv_wf L ct s \<Longrightarrow> \<exists>r s'. body s = Return (r, s') \<and> body_ok L ct to pr s s'"
  shows "\<exists>r srv'. with_lock L N to pr failed body srv = Return (r, srv') \<and> srv_wf L ct srv' \<and>
     reg (asc srv') = reg (asc srv) \<and> held (kmutex (asc srv')) = held (kmutex (asc srv))"
proof (cases "has_srv pr srv")
  case False
  obtain r s' where "body srv = Return (r, s')" and ok: "body_ok L ct to pr srv s'" using body [OF wf] by blast
  then show ?thesis using False by (intro exI [of _ r] exI [of _ s']) (simp add: with_lock_eq body_ok_def)
next
  case has: True
  let ?k = "kmutex (asc srv)" and ?s1 = "locked_srv L N to pr srv"
  have km: "km_inv L ct ?k" using wf by (simp add: srv_wf_def)
  have reg: "km_registered ?k (pr, to)" using wf has by (simp add: srv_wf_def km_registered_def)
  have wf1: "srv_wf L ct ?s1" by (rule locked_srv_wf(1) [OF wf])
  show ?thesis
  proof (cases "fst (takelock L to pr (n_fired N) (asc srv))")
    case (Some e)
    then have "held (kmutex (asc ?s1)) = held ?k"
      using km.acquire_fail [OF km, of "(pr, to)" "n_fired N"] by (simp add: takelock_eq)
    then show ?thesis using Some has wf1 by (simp add: with_lock_eq)
  next
    case None
    obtain r s2 where b: "body ?s1 = Return (r, s2)" and ok: "body_ok L ct to pr ?s1 s2" using body [OF wf1] by blast
    have wf2: "srv_wf L ct s2" using ok by (simp add: body_ok_def)
    have "has_srv pr s2" using body_ok_has [OF ok, of pr] has by (simp add: has_srv_iff)
    then have reg2: "km_registered (kmutex (asc s2)) (pr, to)" using wf2 by (simp add: srv_wf_def km_registered_def)
    have "held (kmutex (asc (unlocked_srv L N to pr s2))) = held ?k"
      using km.bracket [OF km reg, of "n_fired N" "kmutex (asc s2)"] None wf2 reg2 ok fires
      by (simp add: takelock_eq srv_wf_def body_ok_def)
    then show ?thesis
      using None has b locked_srv_wf(2) [OF wf2] ok
      by (simp add: with_lock_eq) (simp add: body_ok_def)
  qed
qed

subsection \<open>The bodies\<close>

lemma SendMsgAfterClose_body_eq:
  assumes "sendMsg L pp mp N to pr msg notimeout srv = Return ((i, s, n, e), srv1)"
  shows "SendMsgAfterClose_body L pp mp N to pr msg srv =
    (case e of
       Some e \<Rightarrow> Return (Some e, srv1)
     | None \<Rightarrow>
         (case s of
            None \<Rightarrow> Panic ''FromReader on a nil stream''
          | Some s \<Rightarrow>
              if \<not> has_srv pr srv1 then Return (None, emit [FullClose s] srv1)
              else if snd (n_FromReader N s) \<noteq> None \<or> rErr (fst (n_FromReader N s)) \<noteq> [] then
                bind_outcome (drop_key_srv L to pr srv1) (\<lambda>srv2. Return
                  (Some (case snd (n_FromReader N s) of Some e \<Rightarrow> e | None \<Rightarrow> rErr (fst (n_FromReader N s))), srv2))
              else Return (None, emit [SetReadDeadline s notimeout] srv1)))"
  by (auto simp: SendMsgAfterClose_body_def assms split_def Let_def split: option.split)

definition read_deadline :: "net \<Rightarrow> int \<Rightarrow> deadline" where
  "read_deadline N tmo = At (n_now N + (if 0 < tmo then tmo else 20 * 1000000000))"

lemma Request_body_eq:
  assumes "sendMsg L pp mp N to pr msg (if 0 < tmo then At (n_now N + tmo) else notimeout) srv = Return ((i, s, n, e), srv1)"
  shows "Request_body L pp mp N to pr msg tmo srv =
    (case e of
       Some e \<Rightarrow> Return (([], Some e), srv1)
     | None \<Rightarrow>
         (case s of
            None \<Rightarrow> Panic ''SetReadDeadline on a nil stream''
          | Some s \<Rightarrow>
              (let srv2 = emit [SetReadDeadline s (read_deadline N tmo)] srv1 in
               if \<not> has_srv pr srv1 then
                 Return (case snd (n_ReadAll N s) of Some e \<Rightarrow> ([], Some e) | None \<Rightarrow> (fst (n_ReadAll N s), None),
                   emit [SetReadDeadline s notimeout, FullClose s] srv2)
               else if snd (n_FromReader N s) \<noteq> None \<or> rErr (fst (n_FromReader N s)) \<noteq> [] then
                 bind_outcome (drop_key_srv L to pr srv2) (\<lambda>srv3. Return
                   (([], Some (case snd (n_FromReader N s) of Some e \<Rightarrow> e | None \<Rightarrow> rErr (fst (n_FromReader N s)))),
                    emit (SetReadDeadline s notimeout # (if has_srv pr srv3 then [] else [FullClose s])) srv3))
               else Return ((rData (fst (n_FromReader N s)), None), emit [SetReadDeadline s notimeout] srv2))))"
  unfolding Request_body_def Let_def assms
  by (auto simp: read_deadline_def split_def has_srv_iff split: option.split)

lemma has_emit [simp]: "has_srv pr (emit es srv) = has_srv pr srv" "has_srv pr (add_addrs i r srv) = has_srv pr srv"
  by (simp_all add: has_srv_iff add_addrs_def)

lemma fst_with_deadline [simp]:
  "fst (with_deadline tmo s f srv) = fst (f (if tmo \<noteq> notimeout then emit [SetWriteDeadline s tmo] srv else srv))"
  by (simp add: with_deadline_def split_def Let_def)

lemma asc_with_deadline [simp]:
  "asc (snd (with_deadline tmo s f srv)) =
   asc (snd (f (if tmo \<noteq> notimeout then emit [SetWriteDeadline s tmo] srv else srv)))"
  by (simp add: with_deadline_def split_def Let_def)

lemma send_opened_eq:
  "send_opened N pr msg i s srv =
     (if has_srv pr srv then
        (let req = NewRawData (n_uuid N) None msg in
         case snd (n_ToWriter N s req) of
           Some e \<Rightarrow> ((i, Some s, 0, Some e), emit [ToWriter s req] srv)
         | None \<Rightarrow> ((i, Some s, fst (n_ToWriter N s req), None), upd_asc (put s) (emit [ToWriter s req] srv)))
      else ((i, Some s, fst (n_Write N s msg), snd (n_Write N s msg)), emit [Write s msg] srv))"
  by (simp add: send_opened_def split_def Let_def split: option.split)

text \<open>How a call of \<open>sendMsg\<close> can end: with the stream it wrote to, or with an error.\<close>

definition wrote :: "net \<Rightarrow> string \<Rightarrow> byte list \<Rightarrow> ('c, 'h, 'm) Service \<Rightarrow> stream \<Rightarrow> bool" where
  "wrote N pr msg srv s \<longleftrightarrow>
     (if has_srv pr srv then snd (n_ToWriter N s (NewRawData (n_uuid N) None msg)) = None
      else snd (n_Write N s msg) = None)"

lemma open_stream_cases:
  "case fst (open_stream pp mp N to pr msg tmo i0 e0 srv) of (i, s, n, e) \<Rightarrow>
     (case e of
        None \<Rightarrow> \<exists>s'. s = Some s' \<and> wrote N pr msg srv s'
      | Some _ \<Rightarrow> asc (snd (open_stream pp mp N to pr msg tmo i0 e0 srv)) = asc srv)"
  by (auto simp: open_stream_def Let_def send_opened_eq wrote_def add_addrs_def
      split: option.split sum.split)

lemma log_pool [simp]: "streams_at (log_metrics ms p) = streams_at p"
  by (rule streams_at_pool) simp

lemma drop_all_none: "pr \<noteq> [] \<Longrightarrow> streams_at (drop_all L to pr p) (newStreamKey to pr) = {}"
  by (simp add: drop_all_streams)

lemma sendMsg_cases:
  assumes wf: "srv_wf L ct srv" and call: "sendMsg L pp mp N to pr msg tmo srv = Return ((i, s, n, e), srv1)"
  shows "e = None \<Longrightarrow> \<exists>s'. s = Some s' \<and> wrote N pr msg srv s'"
    and "e \<noteq> None \<Longrightarrow> peer_Decode pp to = Inr j \<Longrightarrow> has_srv pr srv \<Longrightarrow>
      streams_at (asc srv1) (newStreamKey to pr) = {}"
proof -
  let ?g = "if has_srv pr srv then fst (get (n_pick N) to pr (asc srv)) else None"
  let ?o = "open_stream pp mp N to pr msg tmo (fst (decode_to pp to)) (snd (decode_to pp to)) srv"
  have log: "streams_at (asc (snd (log_sent pr x))) = streams_at (asc (snd x))" for x
    by (rule streams_at_pool) (simp add: log_sent_def)
  have pr: "has_srv pr srv \<Longrightarrow> pr \<noteq> []" using wf by (simp add: srv_wf_def)
  have O: "case fst ?o of (i, s, n, e) \<Rightarrow>
     (case e of None \<Rightarrow> \<exists>s'. s = Some s' \<and> wrote N pr msg srv s' | Some _ \<Rightarrow> asc (snd ?o) = asc srv)"
    by (rule open_stream_cases)
  show "\<exists>s'. s = Some s' \<and> wrote N pr msg srv s'" if e: "e = None"
  proof (cases ?g)
    case None
    then have "fst ?o = (i, s, n, None)" using call e by (simp add: sendMsg_eq log_sent_def)
    then show ?thesis using O by simp
  next
    case (Some s0)
    then have has: "has_srv pr srv" and found: "fst (get (n_pick N) to pr (asc srv)) = Some s0"
      by (simp_all split: if_splits)
    from call e show ?thesis
      by (auto simp: sendMsg_eq send_reused_eq [OF pr [OF has]] has found log_sent_def Let_def wrote_def split: option.splits)
  qed
  show "streams_at (asc srv1) (newStreamKey to pr) = {}"
    if e: "e \<noteq> None" and dec: "peer_Decode pp to = Inr j" and has: "has_srv pr srv"
  proof (cases ?g)
    case None
    then have "streams_at (asc srv) (newStreamKey to pr) = {}"
      using asc.pick_None [of "asc srv" "n_pick N" "(to, pr)"] wf has by (simp add: srv_wf_def)
    moreover have "(\<exists>e'. snd (snd (snd (fst ?o))) = Some e')" and "srv1 = snd (log_sent pr ?o)"
      using call None has e by (auto simp: sendMsg_eq log_sent_def split: prod.splits)
    ultimately show ?thesis
      using O
      by (auto simp: log split: prod.splits)
  next
    case (Some s0)
    with call has e dec show ?thesis
      by (auto simp: sendMsg_eq send_reused_eq [OF pr] Let_def decode_to_def log_sent_def log_pool
          drop_all_none [OF pr] split: option.splits)
  qed
qed

lemma SendMsgAfterClose_body_ok:
  assumes wf: "srv_wf L ct srv"
  shows "\<exists>r srv'. SendMsgAfterClose_body L pp mp N to pr msg srv = Return (r, srv') \<and> body_ok L ct to pr srv srv'"
proof -
  obtain i s n e srv1 where call: "sendMsg L pp mp N to pr msg notimeout srv = Return ((i, s, n, e), srv1)"
      and ok: "body_ok L ct to pr srv srv1"
    using sendMsg_ok [OF wf] by (metis prod_cases4)
  have has: "has_srv pr srv1 = has_srv pr srv" using body_ok_has [OF ok] .
  have pr: "has_srv pr srv \<Longrightarrow> pr \<noteq> []" using wf by (simp add: srv_wf_def)
  show ?thesis
    using sendMsg_cases(1) [OF wf call] ok body_ok_emit [OF ok] body_ok_drop [OF ok]
    by (auto simp: SendMsgAfterClose_body_eq [OF call] has drop_key_srv_eq [OF pr] split: option.split)
qed

lemma Request_body_ok:
  assumes wf: "srv_wf L ct srv"
  shows "\<exists>r srv'. Request_body L pp mp N to pr msg tmo srv = Return (r, srv') \<and> body_ok L ct to pr srv srv'"
proof -
  obtain r srv1 where r: "sendMsg L pp mp N to pr msg (if 0 < tmo then At (n_now N + tmo) else notimeout) srv =
      Return (r, srv1)" and ok: "body_ok L ct to pr srv srv1"
    by (rule sendMsg_ok [OF wf])
  obtain i s n e where "r = (i, s, n, e)" by (cases r)
  note call = r [unfolded this]
  have has: "has_srv pr srv1 = has_srv pr srv" using body_ok_has [OF ok] .
  have pr: "has_srv pr srv \<Longrightarrow> pr \<noteq> []" using wf by (simp add: srv_wf_def)
  show ?thesis
  proof (cases e)
    case (Some m)
    then show ?thesis using ok by (simp add: Request_body_eq [OF call])
  next
    case None
    then obtain s' where s: "s = Some s'" using sendMsg_cases(1) [OF wf call] by blast
    let ?s2 = "emit [SetReadDeadline s' (read_deadline N tmo)] srv1"
    have ok2: "body_ok L ct to pr srv (emit es ?s2)" for es by (intro body_ok_emit ok)
    have ok3: "body_ok L ct to pr srv (emit es (upd_asc (drop_all L to pr) ?s2))" if "has_srv pr srv" for es
      by (intro body_ok_emit body_ok_drop ok that)
    show ?thesis
      by (simp add: Request_body_eq [OF call] None s has Let_def ok2 ok3 drop_key_srv_eq [OF pr])
  qed
qed

end
