(* ===== verification/MessagingProps.thy ===== *)
theory MessagingProps
  imports MessagingSpec
begin

text \<open>
  The properties of the messaging operations, from the lemmas of \<open>MessagingSpec\<close>, and the concrete
  service their witnesses run on.
\<close>

subsection \<open>A concrete service\<close>

definition ex_reuse :: "(nat \<times> (string \<times> string) list, nat, string) Service" where
  "ex_reuse = ex_srv\<lparr>asc := (asc ex_srv)\<lparr>reg := [''/echo/1'' \<mapsto> StreamHandler 0],
     kmutex := Regist ''/echo/1'' (kmutex (asc ex_srv))\<rparr>\<rparr>"

abbreviation fifo_ct :: "nat \<times> ('k \<times> 'v) list \<Rightarrow> 'k \<rightharpoonup> 'v" where
  "fifo_ct \<equiv> \<lambda>c. map_of (snd c)"

definition ex_net :: net where
  "ex_net = \<lparr>n_fired = False, n_unlock_fired = False, n_pick = 0, n_uuid = [9], n_now = 0,
     n_NewStream = (\<lambda>i pr. Inr (ex_stream\<lparr>s_Protocol := pr\<rparr>)), n_ToWriter = (\<lambda>s r. (10, None)),
     n_Write = (\<lambda>s m. (0, Some ''reset'')), n_FromReader = (\<lambda>s. (\<lparr>rId = [9], rErr = [], rData = [5]\<rparr>, None)),
     n_ReadAll = (\<lambda>s. ([6], None))\<rparr>"

definition ex_ma :: "string ma_pkg" where
  "ex_ma = \<lparr>NewMultiaddr = Inr, ValueForProtocol_IPFS = (\<lambda>m. Inr ''16Uiu2''), Decapsulate = (\<lambda>m _. m),
     ma_String = (\<lambda>m. m)\<rparr>"

lemma ex_km: "km_wf fifo_ct (NewKeyMutex fifo_lru t)"
  by (rule km_wf_New [OF fifo_lru_laws])

lemma ex_srv_wf: "srv_wf fifo_lru fifo_ct ex_reuse"
  using km_wf_Regist [OF ex_km, of "''/echo/1''"]
  by (simp add: srv_wf_def ex_reuse_def ex_srv_def NewAStreamCatch_def has_srv_iff pool_wf_def
      km_inv_def fifo_lru_laws) (simp add: Regist_def make_chan_def)

lemma ex_lock_free: "fst (takelock fifo_lru to ''/echo/1'' False (asc ex_reuse)) = None"
proof -
  have "km_wf fifo_ct (kmutex (asc ex_reuse))" "reglock (kmutex (asc ex_reuse)) ''/echo/1'' \<noteq> None"
    using ex_srv_wf by (auto simp: srv_wf_def km_inv_def has_srv_iff ex_reuse_def)
  moreover have "\<not> held (kmutex (asc ex_reuse)) n" for n
    by (simp add: ex_reuse_def ex_srv_def NewAStreamCatch_def held_Regist [OF ex_km])
  ultimately show ?thesis by (simp add: takelock_eq Lock_spec(2) [OF fifo_lru_laws])
qed

subsection \<open>Locks\<close>

lemma exchange_ret:
  "\<not> n_unlock_fired N \<Longrightarrow>
   \<exists>bs e srv'. RequestWithTimeout fifo_lru pp mp N to proto msg tmo ex_reuse = Return ((bs, e), srv')"
  using with_lock_spec [OF ex_srv_wf, of N "Request_body fifo_lru pp mp N to proto msg tmo"] Request_body_ok
  unfolding RequestWithTimeout_def by (metis prod.collapse)

text \<open>
  C3: on every branch (lock not taken, address errors, open, write and read errors, an error answer of the
  peer, success) \<open>RequestWithTimeout\<close> and \<open>SendMsgAfterClose\<close> return without a panic, keep the
  service well-formed, and leave the table of held locks exactly as they found it.
\<close>

theorem exchange_restores_locks:
  assumes "srv_wf L ct srv" and "\<not> n_unlock_fired N"
  shows "(\<exists>r srv'. RequestWithTimeout L pp mp N to proto msg tmo srv = Return (r, srv') \<and> srv_wf L ct srv' \<and>
       reg (asc srv') = reg (asc srv) \<and> held (kmutex (asc srv')) = held (kmutex (asc srv))) \<and>
    (\<exists>r srv'. SendMsgAfterClose L pp mp N to proto msg srv = Return (r, srv') \<and> srv_wf L ct srv' \<and>
       reg (asc srv') = reg (asc srv) \<and> held (kmutex (asc srv')) = held (kmutex (asc srv)))"
  unfolding RequestWithTimeout_def SendMsgAfterClose_def
  by (intro conjI with_lock_spec assms Request_body_ok SendMsgAfterClose_body_ok)

theorem exchange_restores_locks_witness:
  "\<exists>r srv'. RequestWithTimeout fifo_lru ex_peer_pkg ex_ma ex_net ''16Uiu2'' ''/echo/1'' [1] 0 ex_reuse = Return (r, srv') \<and>
     (\<forall>n. \<not> held (kmutex (asc srv')) n)"
proof -
  have "\<not> held (kmutex (asc ex_reuse)) n" for n
    by (simp add: ex_reuse_def ex_srv_def NewAStreamCatch_def held_Regist [OF ex_km])
  moreover have "\<not> n_unlock_fired ex_net" by (simp add: ex_net_def)
  ultimately show ?thesis using exchange_restores_locks [OF ex_srv_wf] by metis
qed

subsection \<open>Errors and results\<close>

lemma Request_body_cases:
  assumes wf: "srv_wf L ct srv" and call: "Request_body L pp mp N to pr msg tmo srv = Return ((bs, e), srv')"
  shows "e = None \<Longrightarrow> \<exists>s. wrote N pr msg srv s \<and>
      (if has_srv pr srv then snd (n_FromReader N s) = None \<and> rErr (fst (n_FromReader N s)) = [] \<and>
         bs = rData (fst (n_FromReader N s))
       else snd (n_ReadAll N s) = None \<and> bs = fst (n_ReadAll N s))"
    and "e \<noteq> None \<Longrightarrow> bs = []"
    and "e \<noteq> None \<Longrightarrow> peer_Decode pp to = Inr j \<Longrightarrow> has_srv pr srv \<Longrightarrow>
      streams_at (asc srv') (newStreamKey to pr) = {}"
proof -
  obtain r srv1 where r: "sendMsg L pp mp N to pr msg (if 0 < tmo then At (n_now N + tmo) else notimeout) srv =
      Return (r, srv1)" and ok: "body_ok L ct to pr srv srv1"
    by (rule sendMsg_ok [OF wf])
  obtain i s n e1 where "r = (i, s, n, e1)" by (cases r)
  note send = r [unfolded this]
  have has: "has_srv pr srv1 = has_srv pr srv" using body_ok_has [OF ok] .
  have pr: "has_srv pr srv \<Longrightarrow> pr \<noteq> []" using wf by (simp add: srv_wf_def)
  note C = sendMsg_cases [OF wf send]
  note body = call [unfolded Request_body_eq [OF send] has Let_def]
  show "\<exists>s. wrote N pr msg srv s \<and>
      (if has_srv pr srv then snd (n_FromReader N s) = None \<and> rErr (fst (n_FromReader N s)) = [] \<and>
         bs = rData (fst (n_FromReader N s))
       else snd (n_ReadAll N s) = None \<and> bs = fst (n_ReadAll N s))" if "e = None"
    using body C(1) that pr
    by (auto simp: drop_key_srv_eq split: option.splits if_splits)
  show "bs = []" if "e \<noteq> None"
    using body C(1) that pr by (auto simp: drop_key_srv_eq split: option.splits if_splits)
  show "streams_at (asc srv') (newStreamKey to pr) = {}"
    if "e \<noteq> None" and "peer_Decode pp to = Inr j" and "has_srv pr srv"
    using body C that pr
    by (auto simp: drop_key_srv_eq drop_all_none [OF pr] split: option.splits if_splits)
qed

lemma locked_body:
  assumes "has_srv pr srv" and "fst (takelock L to pr (n_fired N) (asc srv)) = None"
    and "with_lock L N to pr failed body srv = Return (r, srv')"
  obtains srv2 where "body (locked_srv L N to pr srv) = Return (r, srv2)" and "srv' = unlocked_srv L N to pr srv2"
  using assms by (cases "body (locked_srv L N to pr srv)") (auto simp: with_lock_eq)

text \<open>
  C5: what a failed request on a reused protocol, to a peer id, leaves behind. No data is returned. If the lock
  could not be taken, nothing was called and the pool is as it was. Once the lock was taken, an error of
  whatever origin (no stream, write, read, or the peer's own error frame) means that the pool has no stream
  left for this peer and protocol: the next request starts afresh. For a target that is a multiaddress this is not so, see below.
\<close>

theorem request_error_drops_key:
  assumes "srv_wf L ct srv" and "has_srv proto srv" and "peer_Decode pp to = Inr i"
    and "RequestWithTimeout L pp mp N to proto msg tmo srv = Return ((bs, Some e), srv')"
  shows "bs = [] \<and>
    (if fst (takelock L to proto (n_fired N) (asc srv)) = None
     then streams_at (asc srv') (newStreamKey to proto) = {}
     else pool (asc srv') = pool (asc srv) \<and> fullClosed (asc srv') = fullClosed (asc srv) \<and> trace srv' = trace srv)"
proof (cases "fst (takelock L to proto (n_fired N) (asc srv))")
  case None
  obtain srv2 where body: "Request_body L pp mp N to proto msg tmo (locked_srv L N to proto srv) = Return ((bs, Some e), srv2)"
      and srv': "srv' = unlocked_srv L N to proto srv2"
    using locked_body [OF assms(2) None assms(4) [unfolded RequestWithTimeout_def]] by blast
  have "streams_at (asc srv') = streams_at (asc srv2)" by (rule streams_at_pool) (simp add: srv')
  moreover have "has_srv proto (locked_srv L N to proto srv)" using assms(2) by (simp add: has_srv_iff)
  ultimately show ?thesis
    using None Request_body_cases(2,3) [OF locked_srv_wf(1) [OF assms(1)] body] assms(3) by simp
next
  case (Some m)
  then show ?thesis using assms(2,4) by (auto simp: RequestWithTimeout_def with_lock_eq)
qed

theorem request_error_drops_key_witness:
  "\<exists>bs e srv'. RequestWithTimeout fifo_lru ex_peer_pkg ex_ma (ex_net\<lparr>n_FromReader := (\<lambda>s. (zero_RawData, Some ''EOF''))\<rparr>)
       ''16Uiu2'' ''/echo/1'' [1] 0 ex_reuse = Return ((bs, Some e), srv') \<and>
     streams_at (asc srv') (newStreamKey ''16Uiu2'' ''/echo/1'') = {}"
proof -
  let ?N = "ex_net\<lparr>n_FromReader := (\<lambda>s. (zero_RawData, Some ''EOF''))\<rparr>"
  have free: "fst (takelock fifo_lru ''16Uiu2'' ''/echo/1'' (n_fired ?N) (asc ex_reuse)) = None"
    using ex_lock_free by (simp add: ex_net_def)
  have has: "has_srv ''/echo/1'' ex_reuse" by (simp add: has_srv_iff ex_reuse_def)
  have dec: "peer_Decode ex_peer_pkg ''16Uiu2'' = Inr ''id''" by (simp add: ex_peer_pkg_def)
  have "\<not> n_unlock_fired ?N" by (simp add: ex_net_def)
  with exchange_ret obtain bs e srv' where call: "RequestWithTimeout fifo_lru ex_peer_pkg ex_ma ?N
      ''16Uiu2'' ''/echo/1'' [1] 0 ex_reuse = Return ((bs, e), srv')"
    by blast
  obtain srv2 where "Request_body fifo_lru ex_peer_pkg ex_ma ?N ''16Uiu2'' ''/echo/1'' [1] 0
      (locked_srv fifo_lru ?N ''16Uiu2'' ''/echo/1'' ex_reuse) = Return ((bs, e), srv2)"
    by (rule locked_body [OF has free call [unfolded RequestWithTimeout_def]])
  from Request_body_cases(1) [OF locked_srv_wf(1) [OF ex_srv_wf] this]
  have "e \<noteq> None" by (auto simp: has_srv_iff ex_reuse_def)
  then obtain m where e: "e = Some m" by blast
  show ?thesis
    using request_error_drops_key [OF ex_srv_wf has dec call [unfolded e]] free call e by auto
qed

text \<open>
  What a successful request returns. It comes from a stream on which the request was written without
  an error; on a reused protocol it is the data of the next frame of this stream, which carries no
  error, and otherwise everything that the stream yields up to its end.
\<close>

theorem request_result:
  assumes "srv_wf L ct srv" and "RequestWithTimeout L pp mp N to proto msg tmo srv = Return ((bs, None), srv')"
  shows "\<exists>s. wrote N proto msg srv s \<and>
     (if has_srv proto srv then snd (n_FromReader N s) = None \<and> rErr (fst (n_FromReader N s)) = [] \<and>
        bs = rData (fst (n_FromReader N s))
      else snd (n_ReadAll N s) = None \<and> bs = fst (n_ReadAll N s))"
proof (cases "has_srv proto srv")
  case False
  then have "Request_body L pp mp N to proto msg tmo srv = Return ((bs, None), srv')"
    using assms(2) by (simp add: RequestWithTimeout_def with_lock_eq)
  then show ?thesis using Request_body_cases(1) [OF assms(1)] by blast
next
  case has: True
  then have free: "fst (takelock L to proto (n_fired N) (asc srv)) = None"
    using assms(2) by (auto simp: RequestWithTimeout_def with_lock_eq split: option.splits)
  obtain srv2 where body: "Request_body L pp mp N to proto msg tmo (locked_srv L N to proto srv) = Return ((bs, None), srv2)"
    using locked_body [OF has free assms(2) [unfolded RequestWithTimeout_def]] by blast
  show ?thesis
    using Request_body_cases(1) [OF locked_srv_wf(1) [OF assms(1)] body]
    by (simp add: has_srv_iff wrote_def)
qed

text \<open>The concrete exchange of the witnesses, evaluated.\<close>

lemma ex_request:
  "RequestWithTimeout fifo_lru ex_peer_pkg ex_ma (ex_net\<lparr>n_Write := (\<lambda>s m. (1, None))\<rparr>) ''16Uiu2'' ''/plain'' [1] 0 ex_reuse =
   Return (([6], None), emit [NewStream ''id'' ''/plain'', Write (ex_stream\<lparr>s_Protocol := ''/plain''\<rparr>) [1],
      SetReadDeadline (ex_stream\<lparr>s_Protocol := ''/plain''\<rparr>) (At 20000000000),
      SetReadDeadline (ex_stream\<lparr>s_Protocol := ''/plain''\<rparr>) notimeout,
      FullClose (ex_stream\<lparr>s_Protocol := ''/plain''\<rparr>)]
     (upd_asc (log_metrics [LogSentMessage 1, LogSentMessageStream 1 ''/plain'' ''id'']) ex_reuse))"
  by (simp add: RequestWithTimeout_def with_lock_eq has_srv_iff ex_reuse_def ex_srv_def NewAStreamCatch_def
      Request_body_def sendMsg_eq decode_to_def ex_peer_pkg_def open_stream_def target_def add_addrs_def
      Let_def ex_net_def with_deadline_def send_opened_eq log_sent_def emit_def upd_asc_def)

theorem request_result_witness:
  "\<exists>s. wrote (ex_net\<lparr>n_Write := (\<lambda>s m. (1, None))\<rparr>) ''/plain'' [1] ex_reuse s \<and>
     [6] = fst (n_ReadAll (ex_net\<lparr>n_Write := (\<lambda>s m. (1, None))\<rparr>) s)"
  using request_result [OF ex_srv_wf ex_request] by (auto simp: has_srv_iff ex_reuse_def ex_srv_def NewAStreamCatch_def)

subsection \<open>Streams\<close>

definition deadline_of :: "net \<Rightarrow> int \<Rightarrow> deadline" where
  "deadline_of N tmo = (if 0 < tmo then At (n_now N + tmo) else notimeout)"

definition plain_calls :: "net \<Rightarrow> string \<Rightarrow> byte list \<Rightarrow> int \<Rightarrow> string \<Rightarrow> stream \<Rightarrow> 'm call list" where
  "plain_calls N pr msg tmo i s =
     [NewStream i pr] @ (if 0 < tmo then [SetWriteDeadline s (deadline_of N tmo)] else []) @ [Write s msg] @
     (if 0 < tmo then [SetWriteDeadline s notimeout] else []) @
     (if snd (n_Write N s msg) = None
      then [SetReadDeadline s (read_deadline N tmo), SetReadDeadline s notimeout, FullClose s] else [])"

lemma emit_simps [simp]:
  "emit es (emit fs srv) = emit (fs @ es) srv"
  "emit es (upd_asc f srv) = upd_asc f (emit es srv)"
  "upd_asc f (upd_asc g srv) = upd_asc (\<lambda>p. f (g p)) srv"
  by (simp_all add: emit_def upd_asc_def)

text \<open>
  C30: a request on a protocol that is not reused, to a peer id: the complete list of calls that it makes, and
  its effect on the cache, which is one metric and nothing else. The stream is closed after the
  write succeeded, whatever the read did; it is not closed when the write failed.
\<close>

theorem plain_request_calls:
  assumes "\<not> has_srv pr srv" and "peer_Decode pp to = Inr i" and "n_NewStream N i pr = Inr s"
  shows "\<exists>r. RequestWithTimeout L pp mp N to pr msg tmo srv =
     Return (r, upd_asc (log_metrics [LogSentMessage 1, LogSentMessageStream 1 pr i])
       (emit (plain_calls N pr msg tmo i s) srv)) \<and>
     snd r = (if snd (n_Write N s msg) \<noteq> None then snd (n_Write N s msg) else snd (n_ReadAll N s))"
proof -
  have send: "sendMsg L pp mp N to pr msg (deadline_of N tmo) srv =
     Return ((i, Some s, fst (n_Write N s msg), snd (n_Write N s msg)),
       upd_asc (log_metrics [LogSentMessage 1, LogSentMessageStream 1 pr i]) (emit ([NewStream i pr] @
         (if 0 < tmo then [SetWriteDeadline s (deadline_of N tmo)] else []) @ [Write s msg] @
         (if 0 < tmo then [SetWriteDeadline s notimeout] else [])) srv))"
    using assms by (simp add: sendMsg_eq decode_to_def open_stream_def target_def add_addrs_def Let_def
        with_deadline_def send_opened_eq log_sent_def deadline_of_def)
  have has: "\<not> has_srv pr (upd_asc (log_metrics ms) (emit es srv))" for ms es
    using assms(1) by (simp add: has_srv_iff)
  show ?thesis
    unfolding RequestWithTimeout_def with_lock_eq using assms(1)
    by (auto simp: Request_body_eq [OF send [unfolded deadline_of_def]] has plain_calls_def deadline_of_def Let_def
        split: option.split)
qed

theorem plain_request_calls_witness:
  "\<exists>r. RequestWithTimeout fifo_lru ex_peer_pkg ex_ma ex_net ''16Uiu2'' ''/plain'' [1] 5 ex_reuse =
     Return (r, upd_asc (log_metrics [LogSentMessage 1, LogSentMessageStream 1 ''/plain'' ''id''])
       (emit (plain_calls ex_net ''/plain'' [1] 5 ''id'' (ex_stream\<lparr>s_Protocol := ''/plain''\<rparr>)) ex_reuse)) \<and>
     snd r = Some ''reset''"
  using plain_request_calls [of "''/plain''" ex_reuse ex_peer_pkg "''16Uiu2''" "''id''" ex_net
      "ex_stream\<lparr>s_Protocol := ''/plain''\<rparr>" fifo_lru ex_ma "[1]" 5]
  by (simp add: has_srv_iff ex_reuse_def ex_srv_def NewAStreamCatch_def ex_peer_pkg_def ex_net_def)

lemma put_kmutex: "put s (p\<lparr>kmutex := k\<rparr>) = (put s p)\<lparr>kmutex := k\<rparr>"
  by (simp add: put_def newStreamSessionKey_def Let_def split: option.split)

lemma target_cfg: "cfg srv' = cfg srv \<Longrightarrow> target pp mp to i e srv' = target pp mp to i e srv"
  by (simp add: target_def resolve_to_def Let_def split: option.split sum.split)

text \<open>What \<open>sendMsg\<close> does when it opens a stream for a reused protocol and the write succeeds.\<close>

definition opening_calls :: "net \<Rightarrow> string \<Rightarrow> byte list \<Rightarrow> int \<Rightarrow> string \<Rightarrow> 'm option list \<Rightarrow> stream \<Rightarrow> 'm call list" where
  "opening_calls N pr msg tmo i addrs s =
     (if addrs = [] then [] else [AddAddrs i addrs]) @ [NewStream i pr] @
     (if 0 < tmo then [SetWriteDeadline s (deadline_of N tmo)] else []) @
     [ToWriter s (NewRawData (n_uuid N) None msg)] @ (if 0 < tmo then [SetWriteDeadline s notimeout] else [])"

lemma sendMsg_opens:
  assumes has: "has_srv pr srv" and none: "fst (get (n_pick N) to pr (asc srv)) = None"
    and tgt: "target pp mp to (fst (decode_to pp to)) (snd (decode_to pp to)) srv = ((i, None), addrs)"
    and s: "n_NewStream N i pr = Inr s"
    and wrote: "snd (n_ToWriter N s (NewRawData (n_uuid N) None msg)) = None"
  shows "sendMsg L pp mp N to pr msg (deadline_of N tmo) srv =
     Return ((i, Some s, fst (n_ToWriter N s (NewRawData (n_uuid N) None msg)), None),
       upd_asc (\<lambda>p. log_metrics [LogSentMessage 1, LogSentMessageStream 1 pr i] (put s p))
         (emit (opening_calls N pr msg tmo i addrs s) srv))"
  using assms by (simp add: sendMsg_eq none tgt open_stream_def add_addrs_def Let_def with_deadline_def
      send_opened_eq log_sent_def deadline_of_def opening_calls_def)

text \<open>
  The body of a request that opens a stream of a session that is already filed: the stream is
  used, but \<open>put\<close> keeps the old one, and nothing closes the new one.
\<close>

lemma second_stream_body:
  assumes has: "has_srv pr srv" and none: "fst (get (n_pick N) to pr (asc srv)) = None"
    and tgt: "fst (target pp mp to (fst (decode_to pp to)) (snd (decode_to pp to)) srv) = (i, None)"
    and s: "n_NewStream N i pr = Inr s" and old: "put s (asc srv) = asc srv"
    and wrote: "snd (n_ToWriter N s (NewRawData (n_uuid N) None msg)) = None"
    and answer: "snd (n_FromReader N s) = None" "rErr (fst (n_FromReader N s)) = []"
  shows "\<exists>srv' es. Request_body L pp mp N to pr msg tmo srv = Return ((rData (fst (n_FromReader N s)), None), srv') \<and>
     asc srv' = log_metrics [LogSentMessage 1, LogSentMessageStream 1 pr i] (asc srv) \<and>
     trace srv' = trace srv @ es \<and> NewStream i pr \<in> set es \<and> FullClose s \<notin> set es"
proof -
  obtain addrs where "target pp mp to (fst (decode_to pp to)) (snd (decode_to pp to)) srv = ((i, None), addrs)"
    using tgt by (metis prod.collapse)
  note send = sendMsg_opens [OF has none this s wrote, of L tmo]
  let ?es = "opening_calls N pr msg tmo i addrs s"
  have es: "NewStream i pr \<in> set ?es" "FullClose s \<notin> set ?es" by (simp_all add: opening_calls_def)
  show ?thesis
    by (rule exI [of _ "emit [SetReadDeadline s notimeout] (emit [SetReadDeadline s (read_deadline N tmo)]
          (upd_asc (\<lambda>p. log_metrics [LogSentMessage 1, LogSentMessageStream 1 pr i] (put s p)) (emit ?es srv)))"],
        rule exI [of _ "?es @ [SetReadDeadline s (read_deadline N tmo), SetReadDeadline s notimeout]"])
      (use has es in \<open>auto simp: Request_body_eq [OF send [unfolded deadline_of_def]] has_srv_iff answer old Let_def deadline_of_def\<close>)
qed

text \<open>The body of a request that opens a stream and then gets no answer: the key of the target's text is dropped.\<close>

lemma unanswered_body:
  assumes "has_srv pr srv" and pr: "pr \<noteq> []" and none: "fst (get (n_pick N) to pr (asc srv)) = None"
    and tgt: "fst (target pp mp to (fst (decode_to pp to)) (snd (decode_to pp to)) srv) = (i, None)"
    and s: "n_NewStream N i pr = Inr s"
    and wrote: "snd (n_ToWriter N s (NewRawData (n_uuid N) None msg)) = None"
    and fails: "snd (n_FromReader N s) \<noteq> None \<or> rErr (fst (n_FromReader N s)) \<noteq> []"
  shows "\<exists>e srv'. Request_body L pp mp N to pr msg tmo srv = Return (([], Some e), srv') \<and>
     asc srv' = drop_all L to pr (log_metrics [LogSentMessage 1, LogSentMessageStream 1 pr i] (put s (asc srv)))"
proof -
  obtain addrs where "target pp mp to (fst (decode_to pp to)) (snd (decode_to pp to)) srv = ((i, None), addrs)"
    using tgt by (metis prod.collapse)
  note send = sendMsg_opens [OF assms(1) none this s wrote, of L tmo]
  show ?thesis
    using assms(1) fails
    by (simp add: Request_body_eq [OF send [unfolded deadline_of_def]] has_srv_iff Let_def drop_key_srv_eq [OF pr]
        del: not_None_eq)
qed

text \<open>
  The pool files streams under peer ids, so a target that is no peer id is never found in it. What libp2p
  delivers: the remote peer of a stream is a peer id, and no protocol name contains the separator of the keys.
\<close>

definition ids_pooled :: "string peer_pkg \<Rightarrow> ('c, 'h) AStreamCache \<Rightarrow> bool" where
  "ids_pooled pp p \<longleftrightarrow> (\<forall>(k, sm) \<in> set (pool p). \<forall>(se, s) \<in> set sm.
     (case peer_Decode pp (s_RemotePeer s) of Inl e \<Rightarrow> False | Inr j \<Rightarrow> True) \<and> CHR ''@'' \<notin> set (s_Protocol s))"

lemma ids_pooledD:
  assumes "ids_pooled pp p" and "s \<in> streams_at p k"
  shows "peer_Decode pp (s_RemotePeer s) \<noteq> Inl e" and "CHR ''@'' \<notin> set (s_Protocol s)"
proof -
  obtain sm se where "(k, sm) \<in> set (pool p)" and "(se, s) \<in> set sm"
    using assms(2) by (auto simp: streams_at_def split: option.splits dest!: map_of_SomeD)
  with assms(1) have "(case peer_Decode pp (s_RemotePeer s) of Inl e \<Rightarrow> False | Inr j \<Rightarrow> True) \<and> CHR ''@'' \<notin> set (s_Protocol s)"
    unfolding ids_pooled_def by blast
  then show "peer_Decode pp (s_RemotePeer s) \<noteq> Inl e" and "CHR ''@'' \<notin> set (s_Protocol s)"
    by (auto split: sum.splits)
qed

lemma no_id_not_pooled:
  assumes "pool_wf p" and "ids_pooled pp p" and "peer_Decode pp to = Inl e" and "CHR ''@'' \<notin> set pr"
  shows "streams_at p (newStreamKey to pr) = {}"
proof -
  have "s_RemotePeer s = to" if "s \<in> streams_at p (newStreamKey to pr)" for s
    using streams_at_key [OF assms(1) that] newStreamKey_inject [OF ids_pooledD(2) [OF assms(2) that] assms(4)] by blast
  then show ?thesis using ids_pooledD(1) [OF assms(2)] assms(3) by blast
qed

text \<open>
  C31: a request on a reused protocol whose target is not a peer id but a multiaddress of the peer does not
  find the stream that is pooled for this peer on the same connection: it opens a second one,
  which is then neither filed nor closed, although the request succeeds.
\<close>

theorem address_request_leaks:
  assumes "srv_wf L ct srv" and "has_srv pr srv" and "fst (takelock L to pr (n_fired N) (asc srv)) = None"
    and "peer_Decode pp to = Inl err" and "fst (resolve_to pp mp to srv) = (i, None)"
    and "ids_pooled pp (asc srv)" and "CHR ''@'' \<notin> set pr"
    and "n_NewStream N i pr = Inr s" and "s_Protocol s = pr"
    and "s0 \<in> streams_at (asc srv) (newStreamKey (s_RemotePeer s) pr)" and "session_key s0 = session_key s"
    and "wrote N pr msg srv s" and "snd (n_FromReader N s) = None" and "rErr (fst (n_FromReader N s)) = []"
  shows "\<exists>srv' es. RequestWithTimeout L pp mp N to pr msg tmo srv =
       Return ((rData (fst (n_FromReader N s)), None), srv') \<and>
     pool (asc srv') = pool (asc srv) \<and> fullClosed (asc srv') = fullClosed (asc srv) \<and>
     trace srv' = trace srv @ es \<and> NewStream i pr \<in> set es \<and> FullClose s \<notin> set es"
proof -
  let ?l = "locked_srv L N to pr srv"
  have has: "has_srv pr ?l" using assms(2) by (simp add: has_srv_iff)
  have "streams_at (asc ?l) = streams_at (asc srv)" by (rule streams_at_pool) simp
  then have none: "fst (get (n_pick N) to pr (asc ?l)) = None"
    using asc.pick_None [of "asc ?l" "n_pick N" "(to, pr)"] locked_srv_wf(1) [OF assms(1), of N to pr]
      no_id_not_pooled [OF _ assms(6,4,7)] assms(1)
    by (simp add: srv_wf_def)
  have tgt: "fst (target pp mp to (fst (decode_to pp to)) (snd (decode_to pp to)) ?l) = (i, None)"
    using assms(4,5) target_cfg [of ?l srv pp mp to "[]" "Some err"] by (simp add: decode_to_def target_def)
  have "put s (asc srv) = asc srv"
    by (rule put_old [OF _ _ assms(11)]) (use assms(1,9,10) in \<open>simp_all add: srv_wf_def\<close>)
  then have old: "put s (asc ?l) = asc ?l"
    by (simp add: locked_srv_def takelock_eq put_kmutex)
  have w: "snd (n_ToWriter N s (NewRawData (n_uuid N) None msg)) = None"
    using assms(2,12) by (simp add: wrote_def)
  obtain srv2 es where "Request_body L pp mp N to pr msg tmo ?l = Return ((rData (fst (n_FromReader N s)), None), srv2)"
      and "asc srv2 = log_metrics [LogSentMessage 1, LogSentMessageStream 1 pr i] (asc ?l)"
      and "trace srv2 = trace ?l @ es" "NewStream i pr \<in> set es" "FullClose s \<notin> set es"
    using second_stream_body [OF has none tgt assms(8) old w assms(13,14), of L tmo] by blast
  then show ?thesis
    using assms(2,3)
    by (intro exI [of _ "unlocked_srv L N to pr srv2"] exI [of _ es])
      (simp add: RequestWithTimeout_def with_lock_eq)
qed

theorem address_request_leaks_witness:
  "\<exists>srv' es. RequestWithTimeout fifo_lru ex_peer_pkg ex_ma
       (ex_net\<lparr>n_NewStream := (\<lambda>i pr. Inr (ex_stream\<lparr>s_num := 1\<rparr>))\<rparr>) ''/ip4/1.2.3.4/p2p/16Uiu2'' ''/echo/1'' [1] 0
       (upd_asc (put ex_stream) ex_reuse) = Return (([5], None), srv') \<and>
     pool (asc srv') = pool (put ex_stream (asc ex_reuse)) \<and>
     trace srv' = es \<and> NewStream ''id'' ''/echo/1'' \<in> set es \<and> FullClose (ex_stream\<lparr>s_num := 1\<rparr>) \<notin> set es"
proof -
  let ?N = "ex_net\<lparr>n_NewStream := (\<lambda>i pr. Inr (ex_stream\<lparr>s_num := 1\<rparr>))\<rparr>"
  let ?srv = "upd_asc (put ex_stream) ex_reuse" and ?to = "''/ip4/1.2.3.4/p2p/16Uiu2''"
  have has: "has_srv ''/echo/1'' ?srv" by (simp add: has_srv_iff ex_reuse_def)
  have wf: "srv_wf fifo_lru fifo_ct ?srv"
    using body_ok_put [OF body_ok_refl [OF ex_srv_wf], where pr = "''/echo/1''"] has
    by (simp add: body_ok_def has_srv_iff)
  have free: "fst (takelock fifo_lru ?to ''/echo/1'' (n_fired ?N) (asc ?srv)) = None"
    using ex_lock_free by (simp add: ex_net_def takelock_eq)
  have pool: "pool (asc ?srv) = [(newStreamKey ''16Uiu2'' ''/echo/1'', [(session_key ex_stream, ex_stream)])]"
    by (simp add: put_def newStreamSessionKey_def ex_reuse_def ex_srv_def NewAStreamCatch_def ex_stream_def)
  have ids: "ids_pooled ex_peer_pkg (asc ?srv)"
    unfolding ids_pooled_def pool by (simp add: ex_peer_pkg_def ex_stream_def)
  have filed: "ex_stream \<in> streams_at (asc ?srv) (newStreamKey (s_RemotePeer (ex_stream\<lparr>s_num := 1\<rparr>)) ''/echo/1'')"
    unfolding streams_at_def pool by (simp add: ex_stream_def)
  have same: "session_key ex_stream = session_key (ex_stream\<lparr>s_num := 1\<rparr>)" by (simp add: session_key_def)
  have dec: "peer_Decode ex_peer_pkg ?to = Inl ''bad id''" by (simp add: ex_peer_pkg_def)
  have res: "fst (resolve_to ex_peer_pkg ex_ma ?to ?srv) = (''id'', None)"
    by (simp add: ex_peer_pkg_def ex_ma_def resolve_to_def Let_def)
  have pr: "CHR ''@'' \<notin> set ''/echo/1''" and sp: "s_Protocol (ex_stream\<lparr>s_num := 1\<rparr>) = ''/echo/1''"
    by (simp_all add: ex_stream_def)
  have "n_NewStream ?N ''id'' ''/echo/1'' = Inr (ex_stream\<lparr>s_num := 1\<rparr>)"
    and "wrote ?N ''/echo/1'' [1] ?srv (ex_stream\<lparr>s_num := 1\<rparr>)"
    and "n_FromReader ?N (ex_stream\<lparr>s_num := 1\<rparr>) = (\<lparr>rId = [9], rErr = [], rData = [5]\<rparr>, None)"
    using has by (simp_all add: wrote_def ex_net_def)
  moreover have "trace ?srv = []" by (simp add: ex_reuse_def ex_srv_def)
  ultimately show ?thesis
    using address_request_leaks [OF wf has free dec res ids pr _ sp filed same, of "[1]" 0] by simp blast
qed

text \<open>
  C15: a request on a reused protocol to a multiaddress that opens a stream and then fails (a read error, or an error
  frame of the peer) returns no data and leaves in the pool the stream that failed, or the one of its session that
  was filed before: \<open>del2\<close> is called with the text of the address, under which nothing is filed.
\<close>

theorem address_error_keeps_stream:
  assumes wf: "srv_wf L ct srv" and has: "has_srv pr srv" and lock: "fst (takelock L to pr (n_fired N) (asc srv)) = None"
    and no_id: "peer_Decode pp to = Inl err" and res: "fst (resolve_to pp mp to srv) = (i, None)"
    and ids: "ids_pooled pp (asc srv)" and sep: "CHR ''@'' \<notin> set pr"
    and new: "n_NewStream N i pr = Inr s" "s_Protocol s = pr" "peer_Decode pp (s_RemotePeer s) = Inr j"
    and wrote: "wrote N pr msg srv s"
    and fails: "snd (n_FromReader N s) \<noteq> None \<or> rErr (fst (n_FromReader N s)) \<noteq> []"
  shows "\<exists>e srv'. RequestWithTimeout L pp mp N to pr msg tmo srv = Return (([], Some e), srv') \<and>
     (\<exists>s' \<in> streams_at (asc srv') (newStreamKey (s_RemotePeer s) pr). session_key s' = session_key s)"
proof -
  let ?l = "locked_srv L N to pr srv" and ?k = "newStreamKey (s_RemotePeer s) pr"
  have hasl: "has_srv pr ?l" using has by (simp add: has_srv_iff)
  have wfl: "srv_wf L ct ?l" by (rule locked_srv_wf(1) [OF wf])
  then have pr: "pr \<noteq> []" and pwf: "pool_wf (asc ?l)" using hasl by (simp_all add: srv_wf_def)
  have "streams_at (asc ?l) = streams_at (asc srv)" by (rule streams_at_pool) simp
  then have none: "fst (get (n_pick N) to pr (asc ?l)) = None"
    using asc.pick_None [OF pwf, of "n_pick N" "(to, pr)"] no_id_not_pooled [OF _ ids no_id sep] wf
    by (simp add: srv_wf_def)
  have tgt: "fst (target pp mp to (fst (decode_to pp to)) (snd (decode_to pp to)) ?l) = (i, None)"
    using no_id res target_cfg [of ?l srv pp mp to "[]" "Some err"] by (simp add: decode_to_def target_def)
  have w: "snd (n_ToWriter N s (NewRawData (n_uuid N) None msg)) = None" using has wrote by (simp add: wrote_def)
  obtain e srv2 where body: "Request_body L pp mp N to pr msg tmo ?l = Return (([], Some e), srv2)"
    and asc: "asc srv2 = drop_all L to pr (log_metrics [LogSentMessage 1, LogSentMessageStream 1 pr i] (put s (asc ?l)))"
    using unanswered_body [OF hasl pr none tgt new(1) w fails, of L tmo] by blast
  have "s_RemotePeer s \<noteq> to" using new(3) no_id by auto
  then have "?k \<noteq> newStreamKey to pr" by (simp add: newStreamKey_def)
  then have "streams_at (asc srv2) ?k = streams_at (put s (asc ?l)) ?k"
    by (simp add: asc drop_all_streams [OF pr])
  moreover have "\<exists>s' \<in> streams_at (put s (asc ?l)) ?k. session_key s' = session_key s"
    using put_old [OF pwf, of _ s] put_new [OF pwf, of s] new(2) by fastforce
  moreover have "streams_at (asc (unlocked_srv L N to pr srv2)) = streams_at (asc srv2)"
    by (rule streams_at_pool) simp
  ultimately show ?thesis
    using has lock body by (intro exI [of _ e] exI [of _ "unlocked_srv L N to pr srv2"])
      (simp add: RequestWithTimeout_def with_lock_eq)
qed

theorem address_error_keeps_stream_witness:
  "\<exists>e srv'. RequestWithTimeout fifo_lru ex_peer_pkg ex_ma (ex_net\<lparr>n_FromReader := (\<lambda>s. (zero_RawData, Some ''EOF''))\<rparr>)
       ''/ip4/1.2.3.4/p2p/16Uiu2'' ''/echo/1'' [1] 0 ex_reuse = Return (([], Some e), srv') \<and>
     streams_at (asc srv') (newStreamKey ''16Uiu2'' ''/echo/1'') \<noteq> {}"
proof -
  let ?N = "ex_net\<lparr>n_FromReader := (\<lambda>s. (zero_RawData, Some ''EOF''))\<rparr>" and ?to = "''/ip4/1.2.3.4/p2p/16Uiu2''"
  have has: "has_srv ''/echo/1'' ex_reuse" by (simp add: has_srv_iff ex_reuse_def)
  have free: "fst (takelock fifo_lru ?to ''/echo/1'' (n_fired ?N) (asc ex_reuse)) = None"
    using ex_lock_free by (simp add: ex_net_def)
  have dec: "peer_Decode ex_peer_pkg ?to = Inl ''bad id''" by (simp add: ex_peer_pkg_def)
  have res: "fst (resolve_to ex_peer_pkg ex_ma ?to ex_reuse) = (''id'', None)"
    by (simp add: ex_peer_pkg_def ex_ma_def resolve_to_def Let_def)
  have ids: "ids_pooled ex_peer_pkg (asc ex_reuse)"
    by (simp add: ids_pooled_def ex_reuse_def ex_srv_def NewAStreamCatch_def)
  have pr: "CHR ''@'' \<notin> set ''/echo/1''" by simp
  have new: "n_NewStream ?N ''id'' ''/echo/1'' = Inr ex_stream" "s_Protocol ex_stream = ''/echo/1''"
      "peer_Decode ex_peer_pkg (s_RemotePeer ex_stream) = Inr ''id''"
    by (simp_all add: ex_net_def ex_stream_def ex_peer_pkg_def)
  have w: "wrote ?N ''/echo/1'' [1] ex_reuse ex_stream" using has by (simp add: wrote_def ex_net_def)
  have bad: "snd (n_FromReader ?N ex_stream) \<noteq> None \<or> rErr (fst (n_FromReader ?N ex_stream)) \<noteq> []" by simp
  have "s_RemotePeer ex_stream = ''16Uiu2''" by (simp add: ex_stream_def)
  then show ?thesis
    using address_error_keeps_stream [OF ex_srv_wf has free dec res ids pr new w bad, of 0] by auto
qed

end
