(* ===== verification/EndToEnd.thy ===== *)
theory EndToEnd
  imports MessagingProps
begin

text \<open>
  A client and a server of this program at the two ends of one reused stream: the client calls
  \<open>RequestWithTimeout\<close> (\<open>impl.go\<close>), the server runs the request loop \<open>doHandleStream\<close> (\<open>pool.go\<close>). The
  request that the server's turn gets is the frame that the client gave to \<open>ToWriter\<close>, and what the client
  reads from the stream it wrote to is the frame that the server's turn sent. The transport between
  them, amino over libp2p, delivers frames as they were written.
\<close>

subsection \<open>The two ends of a stream\<close>

text \<open>
  The frames that calls wrote, with their streams. A turn of the server whose reads and writes succeed. A network
  whose writes succeed and that delivers one frame, to a reader of the stream \<open>s1\<close> only.
\<close>

fun written :: "'m call list \<Rightarrow> (stream \<times> RawData) list" where
  "written [] = []"
| "written (ToWriter s req # es) = (s, req) # written es"
| "written (_ # es) = written es"

definition turn_of :: "RawData \<Rightarrow> turn" where
  "turn_of req = \<lparr>t_req = req, t_read = None, t_write = None\<rparr>"

definition delivers :: "stream \<Rightarrow> RawData \<Rightarrow> net \<Rightarrow> net" where
  "delivers s1 fr N = N\<lparr>n_ToWriter := (\<lambda>s r. (fst (n_ToWriter N s r), None)),
     n_FromReader := (\<lambda>s. if s = s1 then (fr, None) else (zero_RawData, Some ''no frame on this stream''))\<rparr>"

definition request_of :: "net \<Rightarrow> byte list \<Rightarrow> RawData" where
  "request_of N msg = NewRawData (n_uuid N) None msg"

definition flow_state :: "'a flow \<Rightarrow> 'a" where
  "flow_state f = (case f of Stop st \<Rightarrow> st | Next st \<Rightarrow> st)"

text \<open>
  One exchange. A call is the environment of the client, its message and its timeout. The client's run and
  the server's turn are tied together by the two frames: \<open>req\<close> is what the client's run wrote, to the stream
  \<open>s1\<close>, and is what the server's turn gets; \<open>fr\<close> is what that turn sent, and is what the client reads from \<open>s1\<close>.
\<close>

type_synonym exchange_call = "net \<times> byte list \<times> int"

inductive exchange :: "'l lru \<Rightarrow> string peer_pkg \<Rightarrow> 'm ma_pkg \<Rightarrow> ('h, 'w) handler_env \<Rightarrow> stream \<Rightarrow> PubKey option \<Rightarrow>
    string \<Rightarrow> string \<Rightarrow> exchange_call \<Rightarrow> ('l, 'g, 'm) Service \<times> ('c, 'h, 'w) loop_state \<Rightarrow>
    byte list \<times> err \<Rightarrow> ('l, 'g, 'm) Service \<times> ('c, 'h, 'w) loop_state \<Rightarrow> bool"
  for L pp mp E s pk to proto where
  exchanged: "RequestWithTimeout L pp mp (delivers s1 fr N) to proto msg tmo srv = Return (r, srv1) \<Longrightarrow>
     written (trace srv1) = written (trace srv) @ [(s1, req)] \<Longrightarrow>
     handle_turn E s pk (turn_of req) st = Return f \<Longrightarrow> sent (flow_state f) = sent st @ [fr] \<Longrightarrow>
     exchange L pp mp E s pk to proto (N, msg, tmo) (srv, st) r (srv1, flow_state f)"

inductive exchanges :: "'l lru \<Rightarrow> string peer_pkg \<Rightarrow> 'm ma_pkg \<Rightarrow> ('h, 'w) handler_env \<Rightarrow> stream \<Rightarrow> PubKey option \<Rightarrow>
    string \<Rightarrow> string \<Rightarrow> exchange_call list \<Rightarrow> ('l, 'g, 'm) Service \<times> ('c, 'h, 'w) loop_state \<Rightarrow>
    (byte list \<times> err) list \<Rightarrow> ('l, 'g, 'm) Service \<times> ('c, 'h, 'w) loop_state \<Rightarrow> bool"
  for L pp mp E s pk to proto where
  no_exchange: "exchanges L pp mp E s pk to proto [] sys [] sys"
| more_exchanges: "exchange L pp mp E s pk to proto c sys r sys1 \<Longrightarrow>
     exchanges L pp mp E s pk to proto cs sys1 rs sys2 \<Longrightarrow>
     exchanges L pp mp E s pk to proto (c # cs) sys (r # rs) sys2"

inductive_cases exchangeE: "exchange L pp mp E s pk to proto (N, msg, tmo) (srv, st) r sys1"
inductive_cases exchanges_NilE: "exchanges L pp mp E s pk to proto [] sys rs sys1"
inductive_cases exchanges_ConsE: "exchanges L pp mp E s pk to proto (c # cs) sys rs sys1"

lemma written_append [simp]: "written (xs @ ys) = written xs @ written ys"
  by (induction xs rule: written.induct) auto

lemma delivers_sel [simp]:
  "snd (n_ToWriter (delivers s1 fr N) s r) = None" "n_NewStream (delivers s1 fr N) = n_NewStream N"
  "n_pick (delivers s1 fr N) = n_pick N" "n_uuid (delivers s1 fr N) = n_uuid N" "n_now (delivers s1 fr N) = n_now N"
  "n_fired (delivers s1 fr N) = n_fired N" "n_unlock_fired (delivers s1 fr N) = n_unlock_fired N"
  "n_FromReader (delivers s1 fr N) s1 = (fr, None)"
  by (simp_all add: delivers_def)

subsection \<open>A request whose answer arrives\<close>

text \<open>What the client needs of its environment: no timer of the lock fires and a stream can be opened.\<close>

definition call_ok :: "string \<Rightarrow> string \<Rightarrow> exchange_call \<Rightarrow> bool" where
  "call_ok i proto c \<longleftrightarrow> (case c of (N, msg, tmo) \<Rightarrow>
     \<not> n_fired N \<and> \<not> n_unlock_fired N \<and> (\<exists>s. n_NewStream N i proto = Inr s))"

text \<open>The stream that the client uses: the one in its pool, or else the one it opens.\<close>

definition used :: "net \<Rightarrow> string \<Rightarrow> string \<Rightarrow> stream \<Rightarrow> ('c, 'h, 'm) Service \<Rightarrow> stream" where
  "used N to pr s0 srv = (case fst (get (n_pick N) to pr (asc srv)) of Some s \<Rightarrow> s | None \<Rightarrow> s0)"

lemma used_pool: "pool (asc srv') = pool (asc srv) \<Longrightarrow> used N to pr s0 srv' = used N to pr s0 srv"
  by (simp add: used_def get_def)

lemma sendMsg_delivers:
  assumes wf: "srv_wf L ct srv" and has: "has_srv pr srv" and dec: "peer_Decode pp to = Inr i"
    and new: "n_NewStream N i pr = Inr s0"
  obtains n srv1 where
    "sendMsg L pp mp (delivers s1 fr N) to pr msg tmo srv = Return ((i, Some (used N to pr s0 srv), n, None), srv1)"
    and "has_srv pr srv1" and "written (trace srv1) = written (trace srv) @ [(used N to pr s0 srv, request_of N msg)]"
proof -
  let ?N = "delivers s1 fr N"
  have pr: "pr \<noteq> []" using wf has by (simp add: srv_wf_def)
  obtain r srv1 where r: "sendMsg L pp mp ?N to pr msg tmo srv = Return (r, srv1)"
    and ok: "body_ok L ct to pr srv srv1"
    by (rule sendMsg_ok [OF wf])
  have h: "has_srv pr srv1" using body_ok_has [OF ok] has by simp
  have "(\<exists>n. r = (i, Some (used N to pr s0 srv), n, None)) \<and>
      written (trace srv1) = written (trace srv) @ [(used N to pr s0 srv, request_of N msg)]"
  proof (cases "fst (get (n_pick N) to pr (asc srv))")
    case None
    let ?o = "open_stream pp mp ?N to pr msg tmo i None srv"
    have "(\<exists>n. fst ?o = (i, Some s0, n, None)) \<and> written (trace (snd ?o)) = written (trace srv) @ [(s0, request_of N msg)]"
      using new has
      by (simp add: open_stream_def target_def add_addrs_def Let_def with_deadline_def split_def send_opened_eq
          request_of_def)
    moreover have "(r, srv1) = log_sent pr ?o" using r None has dec by (simp add: sendMsg_eq decode_to_def)
    ultimately show ?thesis using None by (simp add: used_def log_sent_def)
  next
    case (Some s)
    then show ?thesis
      using r has dec
      by (auto simp: sendMsg_eq decode_to_def log_sent_def send_reused_eq [OF pr] Let_def used_def request_of_def)
  qed
  then show ?thesis using that r h by blast
qed

text \<open>
  The client's call: it writes one frame, its message under a fresh id, to the stream it uses; when the frame that
  arrives is on that stream it returns the frame's data, or the frame's error if it carries one.
\<close>

lemma request_delivered:
  assumes wf: "srv_wf L ct srv" and has: "has_srv pr srv" and dec: "peer_Decode pp to = Inr i"
    and ok: "call_ok i pr (N, msg, tmo)" and free: "\<not> held (kmutex (asc srv)) (lock_name pr to)"
    and new: "n_NewStream N i pr = Inr s0"
  shows "\<exists>r srv'. RequestWithTimeout L pp mp (delivers s1 fr N) to pr msg tmo srv = Return (r, srv') \<and>
    written (trace srv') = written (trace srv) @ [(used N to pr s0 srv, request_of N msg)] \<and>
    srv_wf L ct srv' \<and> has_srv pr srv' \<and> held (kmutex (asc srv')) = held (kmutex (asc srv)) \<and>
    (s1 = used N to pr s0 srv \<longrightarrow> r = (if rErr fr = [] then (rData fr, None) else ([], Some (rErr fr))) \<and>
      (rErr fr \<noteq> [] \<longrightarrow> streams_at (asc srv') (newStreamKey to pr) = {}))"
proof -
  let ?N = "delivers s1 fr N" and ?l = "locked_srv L (delivers s1 fr N) to pr srv"
  have N: "\<not> n_fired ?N" "\<not> n_unlock_fired ?N" using ok by (simp_all add: call_ok_def)
  obtain r srv' where R: "RequestWithTimeout L pp mp ?N to pr msg tmo srv = Return (r, srv')"
    and post: "srv_wf L ct srv'" "reg (asc srv') = reg (asc srv)" "held (kmutex (asc srv')) = held (kmutex (asc srv))"
    using with_lock_spec [OF wf N(2), of "Request_body L pp mp ?N to pr msg tmo" to pr "\<lambda>e. ([], Some e)"]
      Request_body_ok unfolding RequestWithTimeout_def by blast
  have wfk: "km_inv L ct (kmutex (asc srv))" "km_registered (kmutex (asc srv)) (pr, to)"
    using wf has by (auto simp: srv_wf_def km_registered_def)
  have "fst (takelock L to pr (n_fired ?N) (asc srv)) = None"
    using km.acquire_iff [OF wfk, of "n_fired ?N"] N(1) free by (simp add: takelock_eq)
  then obtain srv2 where B: "Request_body L pp mp ?N to pr msg tmo ?l = Return (r, srv2)"
    and srv': "srv' = unlocked_srv L ?N to pr srv2"
    using locked_body [OF has _ R [unfolded RequestWithTimeout_def]] by blast
  have wf1: "srv_wf L ct ?l" by (rule locked_srv_wf(1) [OF wf])
  have has1: "has_srv pr ?l" using has by (simp add: has_srv_iff)
  have pr: "pr \<noteq> []" using wf has by (simp add: srv_wf_def)
  have u: "used N to pr s0 ?l = used N to pr s0 srv" by (rule used_pool) simp
  obtain n srv1 where send: "sendMsg L pp mp ?N to pr msg (if 0 < tmo then At (n_now ?N + tmo) else notimeout) ?l =
      Return ((i, Some (used N to pr s0 srv), n, None), srv1)" and has2: "has_srv pr srv1"
    and wr: "written (trace srv1) = written (trace srv) @ [(used N to pr s0 srv, request_of N msg)]"
    by (rule sendMsg_delivers [OF wf1 has1 dec new, unfolded u locked_srv_sel])
  note B' = B [unfolded Request_body_eq [OF send]]
  have tr: "written (trace srv2) = written (trace srv1)"
    using B' has2 by (auto simp: Let_def drop_key_srv_eq [OF pr] split: if_splits)
  have read: "n_FromReader ?N (used N to pr s0 srv) = (fr, None)" if "s1 = used N to pr s0 srv"
    using delivers_sel(8) [of s1 fr N] that by simp
  have r: "s1 = used N to pr s0 srv \<Longrightarrow> r = (if rErr fr = [] then (rData fr, None) else ([], Some (rErr fr)))"
    using B' has2 read by (auto simp: Let_def drop_key_srv_eq [OF pr] split: if_splits)
  have "streams_at (asc srv') = streams_at (asc srv2)" by (rule streams_at_pool) (simp add: srv')
  moreover obtain bs e where be: "r = (bs, e)" by (cases r)
  moreover have "e \<noteq> None \<Longrightarrow> streams_at (asc srv2) (newStreamKey to pr) = {}"
    by (rule Request_body_cases(3) [OF wf1 B [unfolded be] _ dec has1])
  ultimately show ?thesis using R post has wr tr r by (auto simp: has_srv_iff srv' simp del: not_None_eq)
qed

text \<open>
  Whatever the environment does, a call on a reused protocol gives at most one frame to \<open>ToWriter\<close>, its message under a
  fresh id.
\<close>

definition writes_at_most :: "RawData \<Rightarrow> 'm call list \<Rightarrow> 'm call list \<Rightarrow> bool" where
  "writes_at_most req es es' \<longleftrightarrow>
     written es' = written es \<or> map snd (written es') = map snd (written es) @ [req]"

lemma sendMsg_writes:
  assumes "has_srv pr srv" and pr: "pr \<noteq> []"
    and send: "sendMsg L pp mp N to pr msg tmo srv = Return ((j, s, n, e), srv1)"
  shows "writes_at_most (request_of N msg) (trace srv) (trace srv1)"
proof (cases "fst (get (n_pick N) to pr (asc srv))")
  case None
  then show ?thesis
    using send assms(1)
    by (auto simp: sendMsg_eq log_sent_def open_stream_def writes_at_most_def request_of_def add_addrs_def Let_def
        send_opened_eq with_deadline_def split_def split: option.splits sum.splits if_splits)
next
  case (Some s0)
  then show ?thesis
    using send assms(1)
    by (auto simp: sendMsg_eq log_sent_def send_reused_eq [OF pr] Let_def writes_at_most_def request_of_def
        split: option.splits)
qed

lemma request_writes:
  assumes wf: "srv_wf L ct srv" and has: "has_srv pr srv"
    and R: "RequestWithTimeout L pp mp N to pr msg tmo srv = Return (r, srv')"
  shows "writes_at_most (request_of N msg) (trace srv) (trace srv')"
proof (cases "fst (takelock L to pr (n_fired N) (asc srv))")
  case (Some m)
  then show ?thesis using has R by (auto simp: RequestWithTimeout_def with_lock_eq writes_at_most_def)
next
  case None
  let ?l = "locked_srv L N to pr srv"
  obtain srv2 where B: "Request_body L pp mp N to pr msg tmo ?l = Return (r, srv2)"
    and srv': "srv' = unlocked_srv L N to pr srv2"
    using locked_body [OF has None R [unfolded RequestWithTimeout_def]] by blast
  have wf1: "srv_wf L ct ?l" by (rule locked_srv_wf(1) [OF wf])
  have has1: "has_srv pr ?l" using has by (simp add: has_srv_iff)
  have pr: "pr \<noteq> []" using wf has by (simp add: srv_wf_def)
  obtain q srv1 where q: "sendMsg L pp mp N to pr msg (if 0 < tmo then At (n_now N + tmo) else notimeout) ?l =
      Return (q, srv1)" and ok: "body_ok L ct to pr ?l srv1"
    by (rule sendMsg_ok [OF wf1])
  obtain j s n e where "q = (j, s, n, e)" by (cases q)
  note send = q [unfolded this]
  have has2: "has_srv pr srv1" using body_ok_has [OF ok] has1 by simp
  have "written (trace srv2) = written (trace srv1)"
    using B [unfolded Request_body_eq [OF send]] has2
    by (auto simp: Let_def drop_key_srv_eq [OF pr] split: option.splits if_splits)
  then show ?thesis
    using sendMsg_writes [OF has1 pr send] by (simp add: srv' writes_at_most_def)
qed

text \<open>So an exchange happens, and it can only be the one between the frame of the message and its answer.\<close>

lemma exchange_cases:
  assumes wf: "srv_wf L ct srv" and has: "has_srv proto srv" and dec: "peer_Decode pp to = Inr i"
    and ok: "call_ok i proto (N, msg, tmo)" and free: "\<not> held (kmutex (asc srv)) (lock_name proto to)"
    and turn: "handle_turn E s pk (turn_of (request_of N msg)) st = Return f" and fr: "sent (flow_state f) = sent st @ [fr]"
  shows "\<exists>r sys1. exchange L pp mp E s pk to proto (N, msg, tmo) (srv, st) r sys1"
    and "exchange L pp mp E s pk to proto (N, msg, tmo) (srv, st) r (srv1, st1) \<Longrightarrow>
      r = (if rErr fr = [] then (rData fr, None) else ([], Some (rErr fr))) \<and> st1 = flow_state f \<and>
      map snd (written (trace srv1)) = map snd (written (trace srv)) @ [request_of N msg] \<and>
      srv_wf L ct srv1 \<and> has_srv proto srv1 \<and> held (kmutex (asc srv1)) = held (kmutex (asc srv)) \<and>
      (rErr fr \<noteq> [] \<longrightarrow> streams_at (asc srv1) (newStreamKey to proto) = {})"
proof -
  obtain s0 where new: "n_NewStream N i proto = Inr s0" using ok by (auto simp: call_ok_def)
  note D = request_delivered [OF wf has dec ok free new]
  show "\<exists>r sys1. exchange L pp mp E s pk to proto (N, msg, tmo) (srv, st) r sys1"
    using D [of mp "used N to proto s0 srv" fr] exchanged [OF _ _ turn fr] by blast
  assume "exchange L pp mp E s pk to proto (N, msg, tmo) (srv, st) r (srv1, st1)"
  then show "r = (if rErr fr = [] then (rData fr, None) else ([], Some (rErr fr))) \<and> st1 = flow_state f \<and>
      map snd (written (trace srv1)) = map snd (written (trace srv)) @ [request_of N msg] \<and>
      srv_wf L ct srv1 \<and> has_srv proto srv1 \<and> held (kmutex (asc srv1)) = held (kmutex (asc srv)) \<and>
      (rErr fr \<noteq> [] \<longrightarrow> streams_at (asc srv1) (newStreamKey to proto) = {})"
  proof (rule exchangeE)
    fix s1 fr' srv1' req f'
    assume sys: "(srv1, st1) = (srv1', flow_state f')"
      and R: "RequestWithTimeout L pp mp (delivers s1 fr' N) to proto msg tmo srv = Return (r, srv1')"
      and w: "written (trace srv1') = written (trace srv) @ [(s1, req)]"
      and t: "handle_turn E s pk (turn_of req) st = Return f'" and s: "sent (flow_state f') = sent st @ [fr']"
    have u: "s1 = used N to proto s0 srv" "req = request_of N msg"
      using D [of mp s1 fr'] R w by auto
    then have "f' = f" and "fr' = fr" using t s turn fr by auto
    then show ?thesis using D [of mp s1 fr] R u sys by auto
  qed
qed

subsection \<open>Sequences of exchanges\<close>

lemma handle_turn_serves:
  assumes "implements E s k h f" and "reg (cache st) (s_Protocol s) = Some h" and "writer (rw st) = []"
    and f: "f (reader (rw st) @ rData req) (world st) = (rest, out, w1)" and "rErr req = []"
  shows "handle_turn E s (Some (Secp256k1PublicKey k)) (turn_of req) st =
    Return (Next (st\<lparr>rw := \<lparr>reader = rest, writer = []\<rparr>, world := w1, sent := sent st @ [response_frame req out],
      cache := log_metrics (turn_metrics s) (cache st)\<rparr>))"
  using assms by (simp add: handle_turn_eq implements_def turn_of_def Let_def)

lemma request_of_sel [simp]: "rErr (request_of N msg) = []" "rData (request_of N msg) = msg"
  by (simp_all add: request_of_def NewRawData_def)

definition requests :: "exchange_call list \<Rightarrow> RawData list" where
  "requests calls = map (\<lambda>(N, msg, tmo). request_of N msg) calls"

lemma requests_simps [simp]:
  "requests [] = []" "requests ((N, msg, tmo) # cs) = request_of N msg # requests cs"
  by (simp_all add: requests_def)

lemma exchanges_serve:
  assumes dec: "peer_Decode pp to = Inr i" and imp: "implements E s k h f"
    and "srv_wf L ct srv" and "has_srv proto srv" and "\<forall>c \<in> set calls. call_ok i proto c"
    and "\<not> held (kmutex (asc srv)) (lock_name proto to)"
    and "reg (cache st) (s_Protocol s) = Some h" and "writer (rw st) = []"
  shows "(\<exists>rs sys. exchanges L pp mp E s (Some (Secp256k1PublicKey k)) to proto calls (srv, st) rs sys) \<and>
    (\<forall>rs srv' st'. exchanges L pp mp E s (Some (Secp256k1PublicKey k)) to proto calls (srv, st) rs (srv', st') \<longrightarrow>
      rs = map (\<lambda>fr. (rData fr, None)) (fst (serve f (requests calls) (reader (rw st)) (world st))) \<and>
      map snd (written (trace srv')) = map snd (written (trace srv)) @ requests calls \<and>
      handle_loop E s (Some (Secp256k1PublicKey k)) (map turn_of (requests calls)) st = Return (False, st') \<and>
      srv_wf L ct srv' \<and> held (kmutex (asc srv')) = held (kmutex (asc srv)))"
  using assms(3-)
proof (induction calls arbitrary: srv st)
  case Nil
  then show ?case by (auto intro: no_exchange elim: exchanges_NilE)
next
  case (Cons c cs)
  let ?X = "exchange L pp mp E s (Some (Secp256k1PublicKey k)) to proto"
  let ?XS = "exchanges L pp mp E s (Some (Secp256k1PublicKey k)) to proto"
  obtain N msg tmo where c: "c = (N, msg, tmo)" by (cases c)
  let ?req = "request_of N msg"
  obtain rest out w1 where f: "f (reader (rw st) @ msg) (world st) = (rest, out, w1)" by (metis prod_cases3)
  define st1 where "st1 = st\<lparr>rw := \<lparr>reader = rest, writer = []\<rparr>, world := w1, sent := sent st @ [response_frame ?req out],
      cache := log_metrics (turn_metrics s) (cache st)\<rparr>"
  have turn: "handle_turn E s (Some (Secp256k1PublicKey k)) (turn_of ?req) st = Return (Next st1)"
    using handle_turn_serves [OF imp Cons.prems(5,6), of ?req rest out w1] f by (simp add: st1_def)
  have ok: "call_ok i proto (N, msg, tmo)" and oks: "\<forall>c \<in> set cs. call_ok i proto c" using Cons.prems(3) c by simp_all
  have sent: "sent (flow_state (Next st1)) = sent st @ [response_frame ?req out]"
    by (simp add: flow_state_def st1_def)
  note X = exchange_cases [OF Cons.prems(1,2) dec ok Cons.prems(4) turn sent, where mp = mp]
  have st1: "reg (cache st1) (s_Protocol s) = Some h" "writer (rw st1) = []" "reader (rw st1) = rest" "world st1 = w1"
    using Cons.prems(5) by (simp_all add: st1_def)
  have one: "r = (out, None) \<and> st' = st1 \<and> map snd (written (trace srv')) = map snd (written (trace srv)) @ [?req] \<and>
      srv_wf L ct srv' \<and> has_srv proto srv' \<and> held (kmutex (asc srv')) = held (kmutex (asc srv))"
    if "?X c (srv, st) r (srv', st')" for r srv' st'
    using X(2) [of r srv' st'] that by (simp add: c flow_state_def)
  have IH: "(\<exists>rs sys. ?XS cs (srv1, st1) rs sys) \<and> (\<forall>rs srv' st'. ?XS cs (srv1, st1) rs (srv', st') \<longrightarrow>
      rs = map (\<lambda>fr. (rData fr, None)) (fst (serve f (requests cs) rest w1)) \<and>
      map snd (written (trace srv')) = map snd (written (trace srv1)) @ requests cs \<and>
      handle_loop E s (Some (Secp256k1PublicKey k)) (map turn_of (requests cs)) st1 = Return (False, st') \<and>
      srv_wf L ct srv' \<and> held (kmutex (asc srv')) = held (kmutex (asc srv1)))"
    if "?X c (srv, st) r (srv1, st1)" for r srv1
    using Cons.IH [of srv1 st1] one [OF that] oks Cons.prems(4) st1 by simp
  have run: "\<exists>rs sys. ?XS (c # cs) (srv, st) rs sys"
  proof -
    obtain r srv1 st2 where x: "?X c (srv, st) r (srv1, st2)" using X(1) c by (metis surj_pair)
    then show ?thesis using IH [of r srv1] one [OF x] more_exchanges by (metis (no_types, lifting))
  qed
  have "rs = map (\<lambda>fr. (rData fr, None)) (fst (serve f (requests (c # cs)) (reader (rw st)) (world st))) \<and>
      map snd (written (trace srv')) = map snd (written (trace srv)) @ requests (c # cs) \<and>
      handle_loop E s (Some (Secp256k1PublicKey k)) (map turn_of (requests (c # cs))) st = Return (False, st') \<and>
      srv_wf L ct srv' \<and> held (kmutex (asc srv')) = held (kmutex (asc srv))"
    if XS: "?XS (c # cs) (srv, st) rs (srv', st')" for rs srv' st'
  proof -
    obtain r sys1 rs' where rs: "rs = r # rs'" and x: "?X c (srv, st) r sys1" and xs: "?XS cs sys1 rs' (srv', st')"
      using XS by (rule exchanges_ConsE)
    obtain srv1 st2 where sys1: "sys1 = (srv1, st2)" by (cases sys1)
    note x1 = one [OF x [unfolded sys1]]
    have "fst (serve f (requests (c # cs)) (reader (rw st)) (world st)) =
        response_frame ?req out # fst (serve f (requests cs) rest w1)"
      using f by (simp add: c split: prod.split)
    then show ?thesis using x1 IH [of r srv1] x xs rs sys1 turn by (simp add: c del: serve.simps(2))
  qed
  then show ?case using run by blast
qed

text \<open>
  C1: the two ends together. A client makes any number of requests, one after the other, to a server whose
  handler implements a service. They can all be made, and however they are: the frames that the client gave
  to \<open>ToWriter\<close> are its messages, under fresh ids, in order; the server's loop has run one turn on each of them
  and waits for the next; every request returned without an error, and the answers are those of the
  reference server on these frames. The client's service is well-formed and holds the locks it held before.
\<close>

theorem requests_are_served:
  assumes "srv_wf L ct srv" and "has_srv proto srv" and "peer_Decode pp to = Inr i"
    and "\<forall>c \<in> set calls. call_ok i proto c" and "\<not> held (kmutex (asc srv)) (lock_name proto to)"
    and "implements E s k h f" and "reg (cache st) (s_Protocol s) = Some h" and "writer (rw st) = []"
  shows "(\<exists>rs sys. exchanges L pp mp E s (Some (Secp256k1PublicKey k)) to proto calls (srv, st) rs sys) \<and>
    (\<forall>rs srv' st'. exchanges L pp mp E s (Some (Secp256k1PublicKey k)) to proto calls (srv, st) rs (srv', st') \<longrightarrow>
      rs = map (\<lambda>fr. (rData fr, None)) (fst (serve f (requests calls) (reader (rw st)) (world st))) \<and>
      map snd (written (trace srv')) = map snd (written (trace srv)) @ requests calls \<and>
      handle_loop E s (Some (Secp256k1PublicKey k)) (map turn_of (requests calls)) st = Return (False, st') \<and>
      srv_wf L ct srv' \<and> held (kmutex (asc srv')) = held (kmutex (asc srv)))"
  using assms(3,6,1,2,4,5,7,8) by (rule exchanges_serve)

definition ex_server :: "(nat \<times> (string \<times> string) list, nat, nat) loop_state" where
  "ex_server = \<lparr>rw = \<lparr>reader = [], writer = []\<rparr>, world = 0, cache = ex_cache (StreamHandlerWithProtocol 0), sent = []\<rparr>"

lemma ex_client:
  "has_srv ''/echo/1'' ex_reuse" "\<not> held (kmutex (asc ex_reuse)) (lock_name ''/echo/1'' to)"
  "peer_Decode ex_peer_pkg ''16Uiu2'' = Inr ''id''" "call_ok ''id'' ''/echo/1'' (ex_net, msg, tmo)"
  by (simp_all add: has_srv_iff ex_reuse_def ex_peer_pkg_def call_ok_def ex_net_def)
    (simp add: ex_srv_def NewAStreamCatch_def held_Regist [OF ex_km])

lemma ex_server_sel:
  "reg (cache ex_server) (s_Protocol ex_stream) = Some (StreamHandlerWithProtocol 0)" "writer (rw ex_server) = []"
  "reader (rw ex_server) = []" "world ex_server = 0"
  by (simp_all add: ex_server_def ex_cache_def ex_stream_def)

theorem requests_are_served_witness:
  "\<exists>srv' st'. exchanges fifo_lru ex_peer_pkg ex_ma ex_env ex_stream (Some (Secp256k1PublicKey \<lparr>pubX = 3, pubY = 5\<rparr>))
      ''16Uiu2'' ''/echo/1'' [(ex_net, [1, 7], 0), (ex_net, [2], 5)] (ex_reuse, ex_server)
      [([1, 7], None), ([2], None)] (srv', st') \<and>
    map (rData \<circ> snd) (written (trace srv')) = [[1, 7], [2]]"
proof -
  have E: "implements ex_env ex_stream \<lparr>pubX = 3, pubY = 5\<rparr> (StreamHandlerWithProtocol 0) (\<lambda>d w. ([], d, Suc w))"
    by (simp add: implements_def asc_callHandler_def pubkeyToEcdsa_def ex_env_def)
  have ok: "\<forall>c \<in> set [(ex_net, [1, 7], 0), (ex_net, [2], 5)]. call_ok ''id'' ''/echo/1'' c" using ex_client(4) by simp
  note S = requests_are_served [OF ex_srv_wf ex_client(1,3) ok ex_client(2) E ex_server_sel(1,2), of ex_ma]
  obtain rs srv' st' where X: "exchanges fifo_lru ex_peer_pkg ex_ma ex_env ex_stream
      (Some (Secp256k1PublicKey \<lparr>pubX = 3, pubY = 5\<rparr>)) ''16Uiu2'' ''/echo/1''
      [(ex_net, [1, 7], 0), (ex_net, [2], 5)] (ex_reuse, ex_server) rs (srv', st')"
    using S by (metis surj_pair)
  have "rs = [([1, 7], None), ([2], None)]"
    and "map snd (written (trace srv')) = requests [(ex_net, [1, 7], 0), (ex_net, [2], 5)]"
    using S X by (auto simp: ex_server_sel ex_reuse_def ex_srv_def)
  then show ?thesis using X by (auto simp flip: map_map)
qed

text \<open>
  C18: an error of the handler ends the server's loop and reaches the client as the error of its request,
  which then has no stream left for this peer and protocol. An error whose text is empty does not: the
  client takes the frame for an answer without data.
\<close>

theorem handler_error_reaches_client:
  assumes "srv_wf L ct srv" and "has_srv proto srv" and "peer_Decode pp to = Inr i"
    and "call_ok i proto (N, msg, tmo)" and "\<not> held (kmutex (asc srv)) (lock_name proto to)"
    and "asc_callHandler E s pk (reg (cache st) (s_Protocol s)) ((rw st)\<lparr>reader := reader (rw st) @ msg\<rparr>) (world st) =
      Return (Some m, b, w)"
  shows "(\<exists>st1. handle_turn E s pk (turn_of (request_of N msg)) st = Return (Stop st1)) \<and>
    (\<exists>r sys. exchange L pp mp E s pk to proto (N, msg, tmo) (srv, st) r sys) \<and>
    (\<forall>r srv' st1. exchange L pp mp E s pk to proto (N, msg, tmo) (srv, st) r (srv', st1) \<longrightarrow>
       r = (if m = [] then ([], None) else ([], Some m)) \<and>
       (m \<noteq> [] \<longrightarrow> streams_at (asc srv') (newStreamKey to proto) = {}))"
proof -
  define st1 where "st1 = st\<lparr>rw := b, world := w, sent := sent st @ [error_frame (request_of N msg) m]\<rparr>"
  have turn: "handle_turn E s pk (turn_of (request_of N msg)) st = Return (Stop st1)"
    using assms(6) by (simp add: handle_turn_eq turn_of_def st1_def)
  have sent: "sent (flow_state (Stop st1)) = sent st @ [error_frame (request_of N msg) m]"
    by (simp add: flow_state_def st1_def)
  have data: "rData (error_frame (request_of N msg) m') = []" for m' by (simp add: error_frame_def)
  note X = exchange_cases [OF assms(1-5) turn sent, where mp = mp]
  have "r = (if m = [] then ([], None) else ([], Some m)) \<and>
      (m \<noteq> [] \<longrightarrow> streams_at (asc srv') (newStreamKey to proto) = {})"
    if "exchange L pp mp E s pk to proto (N, msg, tmo) (srv, st) r (srv', st1)" for r srv' st1
    using X(2) [OF that] by (auto simp: data error_frame_def)
  then show ?thesis using turn X(1) by blast
qed

text \<open>A handler that refuses every request.\<close>

definition ex_refuse :: "(nat, nat) handler_env" where
  "ex_refuse = ex_env\<lparr>run_WithProtocol := (\<lambda>h sid pr k b w. Return (Some ''refused'', b, w))\<rparr>"

theorem handler_error_reaches_client_witness:
  "\<exists>srv' st1. exchange fifo_lru ex_peer_pkg ex_ma ex_refuse ex_stream (Some (Secp256k1PublicKey \<lparr>pubX = 3, pubY = 5\<rparr>))
      ''16Uiu2'' ''/echo/1'' (ex_net, [1], 0) (ex_reuse, ex_server) ([], Some ''refused'') (srv', st1)"
proof -
  have H: "asc_callHandler ex_refuse ex_stream (Some (Secp256k1PublicKey \<lparr>pubX = 3, pubY = 5\<rparr>))
      (reg (cache ex_server) (s_Protocol ex_stream)) ((rw ex_server)\<lparr>reader := reader (rw ex_server) @ [1]\<rparr>) (world ex_server) =
    Return (Some ''refused'', (rw ex_server)\<lparr>reader := reader (rw ex_server) @ [1]\<rparr>, world ex_server)"
    by (simp add: ex_server_sel asc_callHandler_def pubkeyToEcdsa_def ex_refuse_def)
  note X = handler_error_reaches_client [OF ex_srv_wf ex_client(1,3) ex_client(4) [where tmo = 0] ex_client(2) H, of ex_ma]
  then obtain r srv' st1 where x: "exchange fifo_lru ex_peer_pkg ex_ma ex_refuse ex_stream
      (Some (Secp256k1PublicKey \<lparr>pubX = 3, pubY = 5\<rparr>)) ''16Uiu2'' ''/echo/1'' (ex_net, [1], 0) (ex_reuse, ex_server) r (srv', st1)"
    by (metis surj_pair)
  with X have "r = ([], Some ''refused'')" by (metis list.distinct(1))
  with x show ?thesis by blast
qed

end
