(* ===== verification/SharedStream.thy ===== *)
theory SharedStream
  imports KeyMutexSys EndToEnd
begin

text \<open>
  Goroutines that call \<open>RequestWithTimeout\<close> for one peer and protocol at the same time, and share the stream that
  is filed for it. The lock of the key (\<open>KeyMutexSys\<close>) is all that keeps a request together with its
  answer: a frame read from the stream is taken as the answer to the frame that the goroutine wrote last,
  the client does not compare their ids. While no exchange fails on the filed stream, every goroutine gets its
  own answer. An exchange that fails there deletes the stream and cleans the lock; after it an answer can
  go to another goroutine.
\<close>

subsection \<open>The system\<close>

text \<open>
  A goroutine is one call. It is ready to send, has written its frame to the stream with the given number,
  has read a frame, or has failed.
\<close>

datatype caller = Ready | Asked nat RawData | Answered RawData RawData | Failed

fun busy :: "caller \<Rightarrow> bool" where
  "busy (Asked n req) = True"
| "busy Ready = False"
| "busy (Answered req rsp) = False"
| "busy Failed = False"

text \<open>
  What the calls are about: the protocol and peer, the messages and the ids of their frames, the handler at
  the other end, its stream and key, and the state in which a request loop starts.
\<close>

record ('l, 'c, 'h, 'w) calls =
  c_lru :: "'l lru"
  c_key :: "string \<times> string"
  c_uuid :: "nat \<Rightarrow> byte list"
  c_msg :: "nat \<Rightarrow> byte list"
  c_env :: "('h, 'w) handler_env"
  c_stream :: stream
  c_pk :: PublicKey
  c_start :: "('c, 'h, 'w) loop_state"

text \<open>
  The state: the locks, the callers, the number of the stream that is filed, the frames written to it, the
  request loop at its other end with the frames it has sent, and the number of those already read.
\<close>

record ('l, 'c, 'h, 'w) shared =
  locks :: "'l lock_sys"
  callers :: "nat \<Rightarrow> caller"
  epoch :: nat
  asked :: "RawData list"
  server :: "('c, 'h, 'w) loop_state"
  got :: nat

definition frame_of :: "('l, 'c, 'h, 'w) calls \<Rightarrow> nat \<Rightarrow> RawData" where
  "frame_of C t = NewRawData (c_uuid C t) None (c_msg C t)"

text \<open>
  The steps. A caller that waits for its answer takes part in no step of the locks: the unlock is deferred.
  \<open>call_write\<close> is the write in \<open>sendMsg\<close>, \<open>call_read\<close> the \<open>FromReader\<close> of the answer, \<open>turn\<close> one turn of the
  request loop. A call fails in two ways. \<open>call_give_up\<close>: no stream could be opened, or the write on a stream just
  opened failed; nothing was filed, and \<open>sendMsg\<close> returns without touching pool or locks. It can always happen.
  \<open>call_fail\<close>: the write on the filed stream failed, or the read, at the deadline or on a stream
  that was closed; \<open>del2\<close> takes the filed stream out of the pool, closes it and cleans the lock, and the next
  caller opens another stream. \<open>fails\<close> says whether that happens at all. \<open>failed_call_effect\<close> below ties the two
  ways to \<open>RequestWithTimeout\<close>, as \<open>request_delivered\<close> of \<open>EndToEnd\<close> does the write and the read.
\<close>

inductive shared_step :: "('l, 'c, 'h, 'w) calls \<Rightarrow> bool \<Rightarrow> ('l, 'c, 'h, 'w) shared \<Rightarrow> ('l, 'c, 'h, 'w) shared \<Rightarrow> bool"
  for C fails where
  locking: "lock_step (c_lru C) (\<lambda>_. c_key C) False (locks x) l \<Longrightarrow>
     (\<forall>t. busy (callers x t) \<longrightarrow> pcs l t = pcs (locks x) t) \<Longrightarrow> shared_step C fails x (x\<lparr>locks := l\<rparr>)"
| call_write: "pcs (locks x) t = Inside r \<Longrightarrow> callers x t = Ready \<Longrightarrow>
     shared_step C fails x
       (x\<lparr>callers := (callers x)(t := Asked (epoch x) (frame_of C t)), asked := asked x @ [frame_of C t]\<rparr>)"
| turn: "length (sent (server x)) < length (asked x) \<Longrightarrow>
     handle_turn (c_env C) (c_stream C) (Some (Secp256k1PublicKey (c_pk C)))
       (turn_of (asked x ! length (sent (server x)))) (server x) = Return (Next st) \<Longrightarrow>
     shared_step C fails x (x\<lparr>server := st\<rparr>)"
| call_read: "callers x t = Asked (epoch x) req \<Longrightarrow> got x < length (sent (server x)) \<Longrightarrow>
     shared_step C fails x
       (x\<lparr>callers := (callers x)(t := Answered req (sent (server x) ! got x)), got := Suc (got x)\<rparr>)"
| call_give_up: "callers x t = Ready \<Longrightarrow> pcs (locks x) t = Inside r \<Longrightarrow>
     shared_step C fails x (x\<lparr>callers := (callers x)(t := Failed)\<rparr>)"
| call_fail: "fails \<Longrightarrow> busy (callers x t) \<or> callers x t = Ready \<and> (\<exists>r. pcs (locks x) t = Inside r) \<Longrightarrow>
     shared_step C fails x
       (x\<lparr>locks := (locks x)\<lparr>mux := Clean (c_lru C) (fst (c_key C)) (snd (c_key C)) (mux (locks x))\<rparr>,
          callers := (callers x)(t := Failed), epoch := Suc (epoch x), asked := [], server := c_start C, got := 0\<rparr>)"

text \<open>
  The two ways to fail, in the code: a call gives up when no stream is filed and it gets none, or cannot write on it.
\<close>

definition gives_up :: "net \<Rightarrow> string \<Rightarrow> string \<Rightarrow> string \<Rightarrow> byte list \<Rightarrow> ('l, 'g, 'm) Service \<Rightarrow> bool" where
  "gives_up N i pr to msg srv \<longleftrightarrow> fst (get (n_pick N) to pr (asc srv)) = None \<and>
     (case n_NewStream N i pr of Inl e \<Rightarrow> True | Inr s \<Rightarrow> snd (n_ToWriter N s (request_of N msg)) \<noteq> None)"

lemma sendMsg_effect:
  assumes wf: "srv_wf L ct srv" and has: "has_srv pr srv" and dec: "peer_Decode pp to = Inr i"
    and send: "sendMsg L pp mp N to pr msg tmo srv = Return ((j, s, n, e), srv1)"
  shows "gives_up N i pr to msg srv \<Longrightarrow> e \<noteq> None \<and> pool (asc srv1) = pool (asc srv) \<and>
      kmutex (asc srv1) = kmutex (asc srv) \<and> fullClosed (asc srv1) = fullClosed (asc srv)"
    and "\<not> gives_up N i pr to msg srv \<Longrightarrow>
      kmutex (asc srv1) = (if e = None then kmutex (asc srv) else Clean L pr to (kmutex (asc srv)))"
proof -
  have pr: "pr \<noteq> []" using wf has by (simp add: srv_wf_def)
  have "if gives_up N i pr to msg srv
    then e \<noteq> None \<and> pool (asc srv1) = pool (asc srv) \<and> kmutex (asc srv1) = kmutex (asc srv) \<and>
      fullClosed (asc srv1) = fullClosed (asc srv)
    else kmutex (asc srv1) = (if e = None then kmutex (asc srv) else Clean L pr to (kmutex (asc srv)))"
  proof (cases "fst (get (n_pick N) to pr (asc srv))")
    case None
    then show ?thesis
      using send has dec
      by (auto simp: sendMsg_eq decode_to_def log_sent_def gives_up_def request_of_def open_stream_def target_def
          add_addrs_def Let_def send_opened_eq split: option.splits sum.splits if_splits)
  next
    case (Some s0)
    then show ?thesis
      using send has dec
      by (auto simp: sendMsg_eq decode_to_def log_sent_def gives_up_def send_reused_eq [OF pr] Let_def pr
          split: option.splits)
  qed
  then show "gives_up N i pr to msg srv \<Longrightarrow> e \<noteq> None \<and> pool (asc srv1) = pool (asc srv) \<and>
      kmutex (asc srv1) = kmutex (asc srv) \<and> fullClosed (asc srv1) = fullClosed (asc srv)"
    and "\<not> gives_up N i pr to msg srv \<Longrightarrow>
      kmutex (asc srv1) = (if e = None then kmutex (asc srv) else Clean L pr to (kmutex (asc srv)))"
    by simp_all
qed

theorem failed_call_effect:
  assumes wf: "srv_wf L ct srv" and has: "has_srv pr srv" and dec: "peer_Decode pp to = Inr i"
    and call: "Request_body L pp mp N to pr msg tmo srv = Return ((bs, Some m), srv')"
  shows "if gives_up N i pr to msg srv
    then pool (asc srv') = pool (asc srv) \<and> kmutex (asc srv') = kmutex (asc srv) \<and>
      fullClosed (asc srv') = fullClosed (asc srv)
    else kmutex (asc srv') = Clean L pr to (kmutex (asc srv)) \<and> streams_at (asc srv') (newStreamKey to pr) = {}"
proof -
  have pr: "pr \<noteq> []" using wf has by (simp add: srv_wf_def)
  obtain r srv1 where r: "sendMsg L pp mp N to pr msg (if 0 < tmo then At (n_now N + tmo) else notimeout) srv =
      Return (r, srv1)" and ok: "body_ok L ct to pr srv srv1"
    by (rule sendMsg_ok [OF wf])
  obtain j s n e where "r = (j, s, n, e)" by (cases r)
  note send = r [unfolded this]
  have has1: "has_srv pr srv1" using body_ok_has [OF ok] has by simp
  note E = sendMsg_effect [OF wf has dec send]
  have "kmutex (asc srv') = (if e = None then Clean L pr to (kmutex (asc srv1)) else kmutex (asc srv1)) \<and>
      (e \<noteq> None \<longrightarrow> asc srv' = asc srv1)"
    using call has1 pr
    by (auto simp: Request_body_eq [OF send] Let_def drop_key_srv_eq [OF pr] split: option.splits if_splits)
  then show ?thesis
    using E Request_body_cases(3) [OF wf call _ dec has] by auto
qed

text \<open>A server whose handler implements a service, at the start of its loop.\<close>

definition serving :: "('l, 'c, 'h, 'w) calls \<Rightarrow> 'h handler \<Rightarrow> 'w service_fn \<Rightarrow> bool" where
  "serving C h f \<longleftrightarrow> implements (c_env C) (c_stream C) (c_pk C) h f \<and>
     reg (cache (c_start C)) (s_Protocol (c_stream C)) = Some h \<and> writer (rw (c_start C)) = [] \<and> sent (c_start C) = []"

definition shared_init :: "('l, 'c, 'h, 'w) calls \<Rightarrow> ('l \<Rightarrow> string \<rightharpoonup> string) \<Rightarrow> int \<Rightarrow> 'h handler \<Rightarrow> 'w service_fn \<Rightarrow>
    ('l, 'c, 'h, 'w) shared \<Rightarrow> bool" where
  "shared_init C ct tmo h f x \<longleftrightarrow> serving C h f \<and> lock_init (c_lru C) ct tmo (locks x) \<and>
     callers x = (\<lambda>_. Ready) \<and> asked x = [] \<and> server x = c_start C \<and> got x = 0"

subsection \<open>The invariant of the calls without failures\<close>

text \<open>
  The loop has served a prefix of what was asked. At most one frame is unread, and its writer is inside the
  lock: with nobody waiting everything asked has been read.
\<close>

definition own_answers :: "('l, 'c, 'h, 'w) calls \<Rightarrow> ('l, 'c, 'h, 'w) shared \<Rightarrow> bool" where
  "own_answers C x \<longleftrightarrow> (\<forall>t req rsp. callers x t = Answered req rsp \<longrightarrow> req = frame_of C t \<and>
     (\<exists>i < got x. asked x ! i = req \<and> sent (server x) ! i = rsp))"

lemma own_answersI:
  assumes "own_answers C x" and "got x \<le> got y"
    and "\<And>i. i < got x \<Longrightarrow> asked y ! i = asked x ! i \<and> sent (server y) ! i = sent (server x) ! i"
    and "\<And>t q r. callers y t = Answered q r \<Longrightarrow> callers x t \<noteq> Answered q r \<Longrightarrow>
      q = frame_of C t \<and> (\<exists>i < got y. asked y ! i = q \<and> sent (server y) ! i = r)"
  shows "own_answers C y"
  unfolding own_answers_def
proof (intro allI impI)
  fix t q r
  assume "callers y t = Answered q r"
  then show "q = frame_of C t \<and> (\<exists>i < got y. asked y ! i = q \<and> sent (server y) ! i = r)"
    using assms(1) assms(2,3) assms(4) [of t q r] unfolding own_answers_def by (metis less_le_trans)
qed

definition shared_inv :: "('l, 'c, 'h, 'w) calls \<Rightarrow> ('l \<Rightarrow> string \<rightharpoonup> string) \<Rightarrow> 'h handler \<Rightarrow> 'w service_fn \<Rightarrow>
    ('l, 'c, 'h, 'w) shared \<Rightarrow> bool" where
  "shared_inv C ct h f x \<longleftrightarrow>
     lock_inv (c_lru C) ct (\<lambda>_. c_key C) (locks x) \<and>
     (sent (server x), reader (rw (server x)), world (server x)) =
       serve f (take (length (sent (server x))) (asked x)) (reader (rw (c_start C))) (world (c_start C)) \<and>
     writer (rw (server x)) = [] \<and> reg (cache (server x)) (s_Protocol (c_stream C)) = Some h \<and>
     got x \<le> length (sent (server x)) \<and> length (sent (server x)) \<le> length (asked x) \<and>
     (\<forall>req \<in> set (asked x). rErr req = []) \<and>
     (\<forall>t n req. callers x t = Asked n req \<longrightarrow> (\<exists>r. pcs (locks x) t = Inside r) \<and> n = epoch x \<and>
        length (asked x) = Suc (got x) \<and> asked x ! got x = req \<and> req = frame_of C t) \<and>
     ((\<forall>t. \<not> busy (callers x t)) \<longrightarrow> got x = length (asked x)) \<and>
     own_answers C x"

lemma shared_invD:
  assumes "shared_inv C ct h f x"
  shows "lock_inv (c_lru C) ct (\<lambda>_. c_key C) (locks x)"
    and "(sent (server x), reader (rw (server x)), world (server x)) =
       serve f (take (length (sent (server x))) (asked x)) (reader (rw (c_start C))) (world (c_start C))"
    and "writer (rw (server x)) = []" and "reg (cache (server x)) (s_Protocol (c_stream C)) = Some h"
    and "got x \<le> length (sent (server x))" and "length (sent (server x)) \<le> length (asked x)"
    and "req \<in> set (asked x) \<Longrightarrow> rErr req = []"
    and "callers x t = Asked n q \<Longrightarrow> (\<exists>r. pcs (locks x) t = Inside r) \<and> n = epoch x \<and>
        length (asked x) = Suc (got x) \<and> asked x ! got x = q \<and> q = frame_of C t"
    and "(\<And>t. \<not> busy (callers x t)) \<Longrightarrow> got x = length (asked x)"
    and "own_answers C x"
  using assms unfolding shared_inv_def by blast+

lemma frame_of_request: "n_uuid N = c_uuid C t \<Longrightarrow> request_of N (c_msg C t) = frame_of C t"
  by (simp add: frame_of_def request_of_def)

lemma frame_of_sel [simp]: "rErr (frame_of C t) = []" "rData (frame_of C t) = c_msg C t"
  by (simp_all add: frame_of_def NewRawData_def)

lemma busy_iff: "busy p \<longleftrightarrow> (\<exists>n req. p = Asked n req)"
  by (cases p) auto

text \<open>Two callers inside the lock are one.\<close>

lemma inside_unique:
  assumes inv: "lock_inv L ct (\<lambda>_. key) s" and "pcs s t = Inside r" and "pcs s u = Inside q"
  shows "t = u"
proof -
  have "reglock (mux s) (tg_name (\<lambda>_. key) t) = Some r" "reglock (mux s) (tg_name (\<lambda>_. key) u) = Some q"
    using lock_invD(3) [OF inv] assms(2,3) by simp_all
  then have "q = r" by (simp add: tg_name_def)
  then show ?thesis using lock_invD(5) [OF inv, of t r u] assms(2,3) by simp
qed

text \<open>One more request served.\<close>

lemma serve_snoc:
  assumes "serve f reqs rest w = (frames, rest1, w1)" and "f (rest1 @ rData req) w1 = (rest2, out, w2)"
  shows "serve f (reqs @ [req]) rest w = (frames @ [response_frame req out], rest2, w2)"
  using assms by (induction reqs arbitrary: rest w frames) (auto split: prod.splits)

lemma locking_inv:
  assumes inv: "shared_inv C ct h f x" and "lock_step (c_lru C) (\<lambda>_. c_key C) False (locks x) l"
    and "\<forall>t. busy (callers x t) \<longrightarrow> pcs l t = pcs (locks x) t"
  shows "shared_inv C ct h f (x\<lparr>locks := l\<rparr>)"
proof -
  have "lock_inv (c_lru C) ct (\<lambda>_. c_key C) l"
    by (rule lock_step_inv [OF shared_invD(1) [OF inv] assms(2)])
  moreover have "pcs l t = pcs (locks x) t" if "callers x t = Asked n req" for t n req
    using assms(3) that by (simp add: busy_iff)
  moreover have "own_answers C (x\<lparr>locks := l\<rparr>)"
    using shared_invD(10) [OF inv] by (simp add: own_answers_def)
  ultimately show ?thesis using inv unfolding shared_inv_def by simp
qed

lemma write_inv:
  assumes inv: "shared_inv C ct h f x" and t: "pcs (locks x) t = Inside r" "callers x t = Ready"
  shows "shared_inv C ct h f
    (x\<lparr>callers := (callers x)(t := Asked (epoch x) (frame_of C t)), asked := asked x @ [frame_of C t]\<rparr>)"
proof -
  note D = shared_invD [OF inv]
  have quiet: "\<not> busy (callers x u)" for u
    using inside_unique [OF D(1) t(1), of u] D(8) [of u] t(2) by (auto simp: busy_iff)
  then have got: "got x = length (asked x)" by (rule D(9))
  with D(5,6) have len: "length (sent (server x)) = length (asked x)" by simp
  have "own_answers C (x\<lparr>callers := (callers x)(t := Asked (epoch x) (frame_of C t)), asked := asked x @ [frame_of C t]\<rparr>)"
    by (rule own_answersI [OF D(10)]) (auto simp: nth_append got split: if_splits)
  then show ?thesis
    using inv quiet t got len unfolding shared_inv_def by (auto simp: nth_append busy_iff)
qed

lemma turn_inv:
  assumes inv: "shared_inv C ct h f x" and imp: "implements (c_env C) (c_stream C) (c_pk C) h f"
    and more: "length (sent (server x)) < length (asked x)"
    and turn: "handle_turn (c_env C) (c_stream C) (Some (Secp256k1PublicKey (c_pk C)))
       (turn_of (asked x ! length (sent (server x)))) (server x) = Return (Next st)"
  shows "shared_inv C ct h f (x\<lparr>server := st\<rparr>)"
proof -
  note D = shared_invD [OF inv]
  let ?n = "length (sent (server x))" and ?st = "server x"
  let ?req = "asked x ! ?n"
  obtain rest out w where f: "f (reader (rw ?st) @ rData ?req) (world ?st) = (rest, out, w)" by (metis prod_cases3)
  have "rErr ?req = []" using D(7) more by simp
  from handle_turn_serves [OF imp D(4,3) f this] turn
  have st: "sent st = sent ?st @ [response_frame ?req out]" "reader (rw st) = rest" "world st = w"
    "writer (rw st) = []" "reg (cache st) = reg (cache ?st)"
    by auto
  have "serve f (take (Suc ?n) (asked x)) (reader (rw (c_start C))) (world (c_start C)) = (sent st, rest, w)"
    unfolding take_Suc_conv_app_nth [OF more] st(1) using D(2) f by (intro serve_snoc) simp_all
  moreover have "own_answers C (x\<lparr>server := st\<rparr>)"
    using D(5) by (intro own_answersI [OF D(10)]) (auto simp: nth_append st)
  ultimately show ?thesis
    using inv more st unfolding shared_inv_def by simp
qed

lemma read_inv:
  assumes inv: "shared_inv C ct h f x" and t: "callers x t = Asked n req" and "got x < length (sent (server x))"
  shows "shared_inv C ct h f
    (x\<lparr>callers := (callers x)(t := Answered req (sent (server x) ! got x)), got := Suc (got x)\<rparr>)"
proof -
  note D = shared_invD [OF inv]
  obtain r where A: "pcs (locks x) t = Inside r" "length (asked x) = Suc (got x)" "asked x ! got x = req" "req = frame_of C t"
    using D(8) [OF t] by blast
  have alone: "\<not> busy (callers x u)" if "u \<noteq> t" for u
    using inside_unique [OF D(1) A(1), of u] D(8) [of u] that by (auto simp: busy_iff)
  let ?y = "x\<lparr>callers := (callers x)(t := Answered req (sent (server x) ! got x)), got := Suc (got x)\<rparr>"
  have "own_answers C ?y"
    by (rule own_answersI [OF D(10)]) (use A in \<open>auto split: if_splits\<close>)
  moreover have "\<not> busy (callers ?y u)" for u using alone by simp
  moreover have "callers ?y u \<noteq> Asked m q" for u m q using alone [of u] by (auto simp: busy_iff)
  ultimately show ?thesis
    using inv A(2) assms(3) unfolding shared_inv_def by simp
qed

lemma give_up_inv:
  assumes inv: "shared_inv C ct h f x" and t: "callers x t = Ready"
  shows "shared_inv C ct h f (x\<lparr>callers := (callers x)(t := Failed)\<rparr>)"
proof -
  have "own_answers C (x\<lparr>callers := (callers x)(t := Failed)\<rparr>)"
    by (rule own_answersI [OF shared_invD(10) [OF inv]]) (auto split: if_splits)
  moreover have "(\<forall>u. \<not> busy (((callers x)(t := Failed)) u)) \<longleftrightarrow> (\<forall>u. \<not> busy (callers x u))"
    using t by (metis busy.simps(2,4) fun_upd_apply)
  ultimately show ?thesis using inv unfolding shared_inv_def by simp
qed

lemma shared_step_inv:
  assumes "shared_inv C ct h f x" and "implements (c_env C) (c_stream C) (c_pk C) h f" and "shared_step C False x y"
  shows "shared_inv C ct h f y"
  using assms(3,1)
  by (cases rule: shared_step.cases) (auto intro: locking_inv write_inv turn_inv [OF _ assms(2)] read_inv give_up_inv)

interpretation shared_calls: safe_system "shared_init C ct tmo h f" "shared_step C False"
    "\<lambda>x. serving C h f \<and> shared_inv C ct h f x"
  for C ct tmo h f
proof unfold_locales
  fix x
  assume "shared_init C ct tmo h f x"
  moreover from this have "lock_inv (c_lru C) ct (\<lambda>_. c_key C) (locks x)"
    by (intro lock_sys.init_inv) (auto simp: shared_init_def)
  ultimately show "serving C h f \<and> shared_inv C ct h f x"
    by (auto simp: shared_init_def serving_def shared_inv_def own_answers_def)
next
  fix x y
  assume "serving C h f \<and> shared_inv C ct h f x" and "shared_step C False x y"
  then show "serving C h f \<and> shared_inv C ct h f y"
    using shared_step_inv by (auto simp: serving_def)
qed

subsection \<open>The frames of the reference server\<close>

lemma fst_serve_Cons:
  "fst (serve f (req # reqs) rest w) =
     (case f (rest @ rData req) w of (rest1, out, w1) \<Rightarrow> response_frame req out # fst (serve f reqs rest1 w1))"
  by (simp split: prod.split)

lemma length_serve [simp]: "length (fst (serve f reqs rest w)) = length reqs"
  by (induction reqs arbitrary: rest w) (simp_all add: fst_serve_Cons del: serve.simps(2) split: prod.split)

lemma serve_take: "fst (serve f (take n reqs) rest w) = take n (fst (serve f reqs rest w))"
  by (induction reqs arbitrary: n rest w)
    (simp_all add: take_Cons' fst_serve_Cons del: serve.simps(2) split: prod.split)

lemma serve_nth:
  assumes "i < length reqs"
  shows "RawData_ID (fst (serve f reqs rest w) ! i) = RawData_ID (reqs ! i) \<and> rErr (fst (serve f reqs rest w) ! i) = []"
  using assms
  by (induction reqs arbitrary: i rest w)
    (auto simp: nth_Cons fst_serve_Cons simp del: serve.simps(2) split: prod.split nat.split)

subsection \<open>Runs\<close>

text \<open>
  Runs of one caller taking and releasing the lock while it is free, whatever the others do: the runs of
  the locks, lifted. \<open>at_rest C ct l\<close> says that the locks are well-formed and the protocol registered.
\<close>

definition at_rest :: "('l, 'c, 'h, 'w) calls \<Rightarrow> ('l \<Rightarrow> string \<rightharpoonup> string) \<Rightarrow> 'l lock_sys \<Rightarrow> bool" where
  "at_rest C ct l \<longleftrightarrow> lru_laws (c_lru C) ct \<and> km_wf ct (mux l) \<and> length (fst (c_key C)) \<noteq> 40 \<and>
     reglock (mux l) (fst (c_key C)) \<noteq> None"

definition taken :: "('l, 'c, 'h, 'w) calls \<Rightarrow> 'l lock_sys \<Rightarrow> bool" where
  "taken C l \<longleftrightarrow> held (mux l) (lock_name (fst (c_key C)) (snd (c_key C)))"

lemma lock_name_neq: "length s \<noteq> 40 \<Longrightarrow> s \<noteq> lock_name a b"
  by auto

lemma shared_lock:
  assumes reach: "reach I (shared_step C fails) x" and rest: "at_rest C ct (locks x)"
    and out: "pcs (locks x) t = Out" "\<not> busy (callers x t)" and free: "\<not> taken C (locks x)"
  obtains l r where "reach I (shared_step C fails) (x\<lparr>locks := l\<rparr>)" and "at_rest C ct l"
    and "pcs l = (pcs (locks x))(t := Inside r)" and "taken C l"
proof -
  let ?s = "locks x" and ?tg = "\<lambda>_ :: nat. c_key C"
  have name: "tg_name ?tg t = lock_name (fst (c_key C)) (snd (c_key C))" by (simp add: tg_name_def)
  have R: "lru_laws (c_lru C) ct" "km_wf ct (mux ?s)" "reglock (mux ?s) (fst (?tg t)) \<noteq> None"
      "\<not> held (mux ?s) (tg_name ?tg t)"
    using rest free by (simp_all add: at_rest_def taken_def name)
  obtain k0 k r where
    1: "lock_step (c_lru C) ?tg False ?s (?s\<lparr>mux := k0, pcs := (pcs ?s)(t := Waiting r)\<rparr>)" and
    2: "lock_step (c_lru C) ?tg False (?s\<lparr>mux := k0, pcs := (pcs ?s)(t := Waiting r)\<rparr>)
      (?s\<lparr>mux := k, pcs := (pcs ?s)(t := Inside r)\<rparr>)" and
    k: "km_wf ct k" "held k (tg_name ?tg t)" "reglock k = (reglock (mux ?s))(tg_name ?tg t \<mapsto> r)"
    by (rule lock_steps [OF out(1) R])
  have "reach I (shared_step C fails) (x\<lparr>locks := ?s\<lparr>mux := k0, pcs := (pcs ?s)(t := Waiting r)\<rparr>\<rparr>)"
    by (rule reach_step [OF reach locking [OF 1]]) (use out in auto)
  from reach_step [OF this locking, simplified, OF 2]
  have "reach I (shared_step C fails) (x\<lparr>locks := ?s\<lparr>mux := k, pcs := (pcs ?s)(t := Inside r)\<rparr>\<rparr>)"
    using out by auto
  then show ?thesis
    by (rule that) (use rest k lock_name_neq in \<open>auto simp: at_rest_def taken_def name\<close>)
qed

lemma shared_unlock:
  assumes reach: "reach I (shared_step C fails) x" and rest: "at_rest C ct (locks x)"
    and ins: "pcs (locks x) t = Inside q" "\<not> busy (callers x t)" and locked: "taken C (locks x)"
  obtains l where "reach I (shared_step C fails) (x\<lparr>locks := l\<rparr>)" and "at_rest C ct l"
    and "pcs l = (pcs (locks x))(t := Out)" and "\<not> taken C l"
proof -
  let ?s = "locks x" and ?tg = "\<lambda>_ :: nat. c_key C"
  have name: "tg_name ?tg t = lock_name (fst (c_key C)) (snd (c_key C))" by (simp add: tg_name_def)
  have R: "lru_laws (c_lru C) ct" "km_wf ct (mux ?s)" "reglock (mux ?s) (fst (?tg t)) \<noteq> None"
      "held (mux ?s) (tg_name ?tg t)"
    using rest locked by (simp_all add: at_rest_def taken_def name)
  obtain k0 k r where
    1: "lock_step (c_lru C) ?tg False ?s (?s\<lparr>mux := k0, pcs := (pcs ?s)(t := Releasing r)\<rparr>)" and
    2: "lock_step (c_lru C) ?tg False (?s\<lparr>mux := k0, pcs := (pcs ?s)(t := Releasing r)\<rparr>)
      (?s\<lparr>mux := k, pcs := (pcs ?s)(t := Out)\<rparr>)" and
    k: "km_wf ct k" "\<not> held k (tg_name ?tg t)" "reglock k = reglock (mux ?s)"
    by (rule unlock_steps [OF ins(1) R])
  have "reach I (shared_step C fails) (x\<lparr>locks := ?s\<lparr>mux := k0, pcs := (pcs ?s)(t := Releasing r)\<rparr>\<rparr>)"
    by (rule reach_step [OF reach locking [OF 1]]) (use ins in auto)
  from reach_step [OF this locking, simplified, OF 2]
  have "reach I (shared_step C fails) (x\<lparr>locks := ?s\<lparr>mux := k, pcs := (pcs ?s)(t := Out)\<rparr>\<rparr>)"
    using ins by auto
  then show ?thesis
    by (rule that) (use rest k in \<open>auto simp: at_rest_def taken_def name\<close>)
qed

text \<open>Calls of an echo handler: caller \<open>t\<close> sends the byte \<open>t\<close> in a frame with the id \<open>t\<close>.\<close>

definition ex_calls :: "(nat \<times> (string \<times> string) list, nat \<times> (string \<times> string) list, nat, nat) calls" where
  "ex_calls = \<lparr>c_lru = fifo_lru, c_key = (''/echo/1'', ''x''), c_uuid = (\<lambda>t. [of_nat t]), c_msg = (\<lambda>t. [of_nat t]),
     c_env = ex_env, c_stream = ex_stream, c_pk = \<lparr>pubX = 3, pubY = 5\<rparr>, c_start = ex_server\<rparr>"

abbreviation ex_init :: "(nat \<times> (string \<times> string) list, nat \<times> (string \<times> string) list, nat, nat) shared \<Rightarrow> bool" where
  "ex_init \<equiv> shared_init ex_calls (\<lambda>c. map_of (snd c)) 45 (StreamHandlerWithProtocol 0) (\<lambda>d w. ([], d, Suc w))"

abbreviation ex_rest :: "(nat \<times> (string \<times> string) list) lock_sys \<Rightarrow> bool" where
  "ex_rest \<equiv> at_rest ex_calls (\<lambda>c. map_of (snd c))"

lemma ex_implements: "implements ex_env ex_stream \<lparr>pubX = 3, pubY = 5\<rparr> (StreamHandlerWithProtocol 0) (\<lambda>d w. ([], d, Suc w))"
  by (simp add: implements_def asc_callHandler_def pubkeyToEcdsa_def ex_env_def)

lemma ex_serving: "serving ex_calls (StreamHandlerWithProtocol 0) (\<lambda>d w. ([], d, Suc w))"
  by (simp add: serving_def ex_calls_def ex_implements) (simp add: ex_server_sel, simp add: ex_server_def)

lemma shared_start:
  obtains l where "reach ex_init (shared_step ex_calls fails)
      \<lparr>locks = l, callers = (\<lambda>_. Ready), epoch = 0, asked = [], server = ex_server, got = 0\<rparr>"
    and "ex_rest l" and "pcs l = (\<lambda>_. Out)" and "\<not> taken ex_calls l"
proof -
  let ?ct = "\<lambda>c. map_of (snd c)"
  define l0 where "l0 = \<lparr>mux = NewKeyMutex fifo_lru 45, pcs = (\<lambda>_. Out)\<rparr>"
  define l where "l = l0\<lparr>mux := Regist ''/echo/1'' (mux l0)\<rparr>"
  let ?x = "\<lambda>l. \<lparr>locks = l, callers = (\<lambda>_. Ready), epoch = 0, asked = [], server = ex_server, got = 0\<rparr>"
  have C: "c_lru ex_calls = fifo_lru" "c_key ex_calls = (''/echo/1'', ''x'')" "c_start ex_calls = ex_server"
    by (simp_all add: ex_calls_def)
  have "lock_init fifo_lru ?ct 45 l0" by (simp add: lock_init_def l0_def fifo_lru_laws)
  then have 0: "reach ex_init (shared_step ex_calls fails) (?x l0)"
    by (intro reach_init) (simp add: shared_init_def ex_serving C)
  have "lock_step fifo_lru (\<lambda>_. c_key ex_calls) False l0 l"
    unfolding l_def by (rule regist) simp
  from reach_step [OF 0 locking, of l] this
  have "reach ex_init (shared_step ex_calls fails) (?x l)" by (simp add: C)
  moreover have wf: "km_wf ?ct (mux l0)" by (simp add: l0_def km_wf_New [OF fifo_lru_laws])
  have "ex_rest l"
    using km_wf_Regist [OF wf, of "''/echo/1''"] fifo_lru_laws
    by (simp add: at_rest_def C l_def) (simp add: Regist_def make_chan_def)
  moreover have "\<not> taken ex_calls l"
    by (simp add: taken_def C l_def held_Regist [OF wf]) (simp add: l0_def held_def NewKeyMutex_def)
  ultimately show ?thesis by (intro that [of l]) (simp_all add: l_def l0_def)
qed

text \<open>One caller locks and writes; one turn of the loop answers it.\<close>

lemma shared_ask:
  assumes reach: "reach I (shared_step C fails) x" and rest: "at_rest C ct (locks x)"
    and out: "pcs (locks x) t = Out" and ready: "callers x t = Ready" and free: "\<not> taken C (locks x)"
  obtains y r where "reach I (shared_step C fails) y" and "at_rest C ct (locks y)"
    and "pcs (locks y) = (pcs (locks x))(t := Inside r)" and "taken C (locks y)"
    and "callers y = (callers x)(t := Asked (epoch x) (frame_of C t))" and "asked y = asked x @ [frame_of C t]"
    and "epoch y = epoch x" and "server y = server x" and "got y = got x"
proof -
  have "\<not> busy (callers x t)" by (simp add: ready)
  then obtain l r where l: "reach I (shared_step C fails) (x\<lparr>locks := l\<rparr>)" "at_rest C ct l"
      "pcs l = (pcs (locks x))(t := Inside r)" "taken C l"
    by (rule shared_lock [OF reach rest out _ free])
  show ?thesis
    by (rule that [OF reach_step [OF l(1) call_write [where t = t and r = r]]]) (simp_all add: l ready)
qed

lemma ex_turn_of:
  assumes "server x = ex_server" and "asked x = req # reqs" and "rErr req = []"
  obtains st where "shared_step ex_calls fails x (x\<lparr>server := st\<rparr>)" and "sent st = [response_frame req (rData req)]"
proof -
  have C: "c_env ex_calls = ex_env" "c_stream ex_calls = ex_stream" "c_pk ex_calls = \<lparr>pubX = 3, pubY = 5\<rparr>"
    by (simp_all add: ex_calls_def)
  define st where "st = ex_server\<lparr>rw := \<lparr>reader = [], writer = []\<rparr>, world := Suc 0,
    sent := sent ex_server @ [response_frame req (rData req)],
    cache := log_metrics (turn_metrics ex_stream) (cache ex_server)\<rparr>"
  have f: "([], reader (rw ex_server) @ rData req, Suc (world ex_server)) = ([], rData req, Suc 0)"
    by (simp add: ex_server_sel)
  have none: "sent ex_server = []" by (simp add: ex_server_def)
  have "handle_turn ex_env ex_stream (Some (Secp256k1PublicKey \<lparr>pubX = 3, pubY = 5\<rparr>)) (turn_of req) ex_server =
      Return (Next st)"
    unfolding st_def by (rule handle_turn_serves [OF ex_implements ex_server_sel(1,2) f assms(3)])
  then have "shared_step ex_calls fails x (x\<lparr>server := st\<rparr>)"
    by (intro shared_step.turn) (simp_all add: C assms(1,2) none)
  moreover have "sent st = [response_frame req (rData req)]" by (simp add: st_def none)
  ultimately show ?thesis by (rule that)
qed

lemma ex_asked:
  "\<exists>x. reach ex_init (shared_step ex_calls fails) x \<and> callers x 0 = Asked (epoch x) (frame_of ex_calls 0) \<and>
     asked x = [frame_of ex_calls 0] \<and> server x = ex_server \<and> got x = 0"
proof -
  obtain l where l: "reach ex_init (shared_step ex_calls fails)
      \<lparr>locks = l, callers = (\<lambda>_. Ready), epoch = 0, asked = [], server = ex_server, got = 0\<rparr>"
      "ex_rest l" "pcs l = (\<lambda>_. Out)" "\<not> taken ex_calls l"
    by (rule shared_start)
  show ?thesis
    by (rule shared_ask [OF l(1), of "\<lambda>c. map_of (snd c)" 0]) (use l in auto)
qed

text \<open>
  With failures: caller 0 fails while it is inside, so the lock is cleaned; caller 1 takes the new lock and
  writes to the next stream; caller 0 unlocks, which releases the lock of caller 1; caller 2 gets in,
  writes to the same stream, and reads the first answer on it.
\<close>

lemma ex_crossed:
  "\<exists>x. reach ex_init (shared_step ex_calls True) x \<and> callers x 1 = Asked 1 (frame_of ex_calls 1) \<and>
     callers x 2 = Answered (frame_of ex_calls 2) (response_frame (frame_of ex_calls 1) [1]) \<and> asked x = map (frame_of ex_calls) [1, 2]"
proof -
  let ?R = "reach ex_init (shared_step ex_calls True)" and ?f = "frame_of ex_calls"
  obtain l0 where 0: "?R \<lparr>locks = l0, callers = (\<lambda>_. Ready), epoch = 0, asked = [], server = ex_server, got = 0\<rparr>"
      "ex_rest l0" "pcs l0 = (\<lambda>_. Out)" "\<not> taken ex_calls l0"
    by (rule shared_start)
  \<comment> \<open>caller 0 asks\<close>
  define x0 where "x0 = \<lparr>locks = l0, callers = (\<lambda>_. Ready), epoch = 0, asked = [], server = ex_server, got = 0\<rparr>"
  have x0: "ex_rest (locks x0)" "pcs (locks x0) 0 = Out" "callers x0 0 = Ready" "\<not> taken ex_calls (locks x0)"
    using 0 by (simp_all add: x0_def)
  obtain x1 q where 1: "?R x1" "ex_rest (locks x1)" "pcs (locks x1) = (pcs (locks x0))(0 := Inside q)"
      "callers x1 = (callers x0)(0 := Asked (epoch x0) (?f 0))" "epoch x1 = epoch x0"
    by (rule shared_ask [OF 0(1) [folded x0_def] x0])
  \<comment> \<open>caller 0 fails: the lock is cleaned, the next stream is another one\<close>
  let ?m = "Clean fifo_lru ''/echo/1'' ''x'' (mux (locks x1))"
  define x2 where "x2 = x1\<lparr>locks := (locks x1)\<lparr>mux := ?m\<rparr>, callers := (callers x1)(0 := Failed),
    epoch := Suc (epoch x1), asked := [], server := ex_server, got := 0\<rparr>"
  have C: "c_lru ex_calls = fifo_lru" "c_key ex_calls = (''/echo/1'', ''x'')" "c_start ex_calls = ex_server"
    by (simp_all add: ex_calls_def)
  have "shared_step ex_calls True x1 x2"
    using call_fail [where fails = True and x = x1 and t = 0 and C = ex_calls] 1(4) by (simp add: x2_def C)
  with 1(1) have r2: "?R x2" by (rule reach_step)
  have x2: "ex_rest (locks x2)" "pcs (locks x2) 1 = Out" "callers x2 1 = Ready" "\<not> taken ex_calls (locks x2)"
    using 1 0(3) Clean_spec [OF fifo_lru_laws, of "mux (locks x1)"] lock_name_neq
    by (auto simp: x2_def x0_def at_rest_def taken_def C)
  \<comment> \<open>caller 1 asks on the next stream\<close>
  obtain x3 r where 3: "?R x3" "ex_rest (locks x3)" "pcs (locks x3) = (pcs (locks x2))(1 := Inside r)"
      "taken ex_calls (locks x3)" "callers x3 = (callers x2)(1 := Asked (epoch x2) (?f 1))"
      "asked x3 = asked x2 @ [?f 1]" "epoch x3 = epoch x2" "server x3 = server x2" "got x3 = got x2"
    by (rule shared_ask [OF r2 x2])
  \<comment> \<open>caller 0 unlocks\<close>
  have x3: "pcs (locks x3) 0 = Inside q" "\<not> busy (callers x3 0)"
    using 1(3) 3(3,5) by (simp_all add: x2_def)
  obtain l4 where 4: "?R (x3\<lparr>locks := l4\<rparr>)" "ex_rest l4" "pcs l4 = (pcs (locks x3))(0 := Out)" "\<not> taken ex_calls l4"
    by (rule shared_unlock [OF 3(1,2) x3 3(4)])
  \<comment> \<open>caller 2 asks on the same stream\<close>
  define x4 where "x4 = x3\<lparr>locks := l4\<rparr>"
  have x4: "ex_rest (locks x4)" "pcs (locks x4) 2 = Out" "callers x4 2 = Ready" "\<not> taken ex_calls (locks x4)"
    using 0(3) 1(3,4) 3(3,5) 4 by (simp_all add: x4_def x2_def x0_def)
  obtain x5 where 5: "?R x5" "callers x5 = (callers x4)(2 := Asked (epoch x4) (?f 2))"
      "asked x5 = asked x4 @ [?f 2]" "epoch x5 = epoch x4" "server x5 = server x4" "got x5 = got x4"
    by (rule shared_ask [OF 4(1) [folded x4_def] x4])
  \<comment> \<open>the loop answers caller 1; caller 2 reads\<close>
  have "asked x5 = [?f 1, ?f 2]" "server x5 = ex_server" "got x5 = 0" "epoch x5 = 1"
    using 3 5 1(5) by (simp_all add: x4_def x2_def x0_def)
  note x5 = this
  obtain st where turn: "shared_step ex_calls True x5 (x5\<lparr>server := st\<rparr>)" and
      st: "sent st = [response_frame (?f 1) (rData (?f 1))]"
    by (rule ex_turn_of [OF x5(2,1)]) simp_all
  have msg: "c_msg ex_calls 1 = [1]" by (simp add: ex_calls_def)
  have e: "epoch x1 = 0" using 1(5) by (simp add: x0_def)
  have wait: "callers x5 1 = Asked 1 (?f 1)" "callers x5 2 = Asked 1 (?f 2)"
    using 3(5,7) 5(2,4) x5(4) e by (simp_all add: x4_def x2_def)
  define x6 where "x6 = x5\<lparr>server := st, callers := (callers x5)(2 := Answered (?f 2) (response_frame (?f 1) [1])), got := 1\<rparr>"
  have "shared_step ex_calls True (x5\<lparr>server := st\<rparr>) x6"
    using call_read [where x = "x5\<lparr>server := st\<rparr>" and t = 2 and req = "?f 2" and C = ex_calls and fails = True]
      wait x5 st msg by (simp add: x6_def)
  then have "?R x6" by (rule reach_step [OF reach_step [OF 5(1) turn]])
  then show ?thesis
    using wait(1) x5(1) by (intro exI [of _ x6]) (simp add: x6_def)
qed

subsection \<open>Properties\<close>

text \<open>
  C2: callers get their own answers, as long as no exchange fails on the filed stream. However the calls of any
  number of goroutines on one stream interleave, with each other, with lock timeouts, with calls that give up
  for want of a stream, and with the request loop at the other end: a frame that a caller takes as its answer is
  the reference server's answer to the very frame that the caller wrote, with its id and without an error. That
  frame is the one that its call of \<open>RequestWithTimeout\<close> gives to \<open>ToWriter\<close>, in any run of it. An exchange that
  fails on the filed stream cleans the lock, and then this no longer holds, see the last property of this theory.
\<close>

theorem callers_get_own_answers:
  assumes "reach (shared_init C ct tmo h f) (shared_step C False) x" and "callers x t = Answered req rsp"
  shows "req = frame_of C t \<and> RawData_ID rsp = RawData_ID req \<and> rErr rsp = [] \<and>
    (\<exists>i < length (asked x). asked x ! i = req \<and>
      rsp = fst (serve f (asked x) (reader (rw (c_start C))) (world (c_start C))) ! i) \<and>
    (srv_wf L ct' srv \<longrightarrow> has_srv pr srv \<longrightarrow> n_uuid N = c_uuid C t \<longrightarrow>
      RequestWithTimeout L pp mp N to pr (c_msg C t) tm srv = Return (res, srv') \<longrightarrow>
      written (trace srv') = written (trace srv) \<or> map snd (written (trace srv')) = map snd (written (trace srv)) @ [req])"
proof -
  have inv: "shared_inv C ct h f x" using shared_calls.reach_inv [OF assms(1)] by blast
  note D = shared_invD [OF inv]
  let ?frames = "fst (serve f (asked x) (reader (rw (c_start C))) (world (c_start C)))"
  obtain i where i: "i < got x" "asked x ! i = req" "sent (server x) ! i = rsp" and req: "req = frame_of C t"
    using D(10) assms(2) unfolding own_answers_def by blast
  have sent: "sent (server x) = take (length (sent (server x))) ?frames"
    unfolding serve_take [symmetric] D(2) [symmetric] by (rule fst_conv [symmetric])
  have "rsp = ?frames ! i"
    using i(1,3) D(5) by (subst (asm) sent) simp
  moreover have "i < length (asked x)" using i D(5,6) by simp
  moreover have "written (trace srv') = written (trace srv) \<or> map snd (written (trace srv')) = map snd (written (trace srv)) @ [req]"
    if "srv_wf L ct' srv" "has_srv pr srv" "n_uuid N = c_uuid C t"
      "RequestWithTimeout L pp mp N to pr (c_msg C t) tm srv = Return (res, srv')"
    using request_writes [OF that(1,2,4)] by (simp add: frame_of_request [OF that(3)] req writes_at_most_def)
  ultimately show ?thesis
    using serve_nth [of i "asked x" f "reader (rw (c_start C))" "world (c_start C)"] i(2) req by auto
qed

theorem callers_get_own_answers_witness:
  "\<exists>x rsp. reach ex_init (shared_step ex_calls False) x \<and> callers x 0 = Answered (frame_of ex_calls 0) rsp \<and>
     RawData_ID rsp = RawData_ID (frame_of ex_calls 0) \<and>
     (\<exists>res srv'. RequestWithTimeout fifo_lru ex_peer_pkg ex_ma (ex_net\<lparr>n_uuid := [0]\<rparr>) ''16Uiu2'' ''/echo/1'' [0] 0 ex_reuse =
        Return (res, srv') \<and> (written (trace srv') = [] \<or> map snd (written (trace srv')) = [frame_of ex_calls 0]))"
proof -
  let ?N = "ex_net\<lparr>n_uuid := [0]\<rparr>"
  obtain res srv' where R: "RequestWithTimeout fifo_lru ex_peer_pkg ex_ma ?N ''16Uiu2'' ''/echo/1'' (c_msg ex_calls 0) 0 ex_reuse =
      Return (res, srv')"
  proof -
    have "\<not> n_unlock_fired ?N" by (simp add: ex_net_def)
    then show ?thesis using exchange_ret that by blast
  qed
  have N: "n_uuid ?N = c_uuid ex_calls 0" and msg: "c_msg ex_calls 0 = [0]" by (simp_all add: ex_calls_def)
  have old: "written (trace ex_reuse) = []" by (simp add: ex_reuse_def ex_srv_def)
  obtain x where x: "reach ex_init (shared_step ex_calls False) x" "callers x 0 = Asked (epoch x) (frame_of ex_calls 0)"
      "asked x = [frame_of ex_calls 0]" "server x = ex_server" "got x = 0"
    using ex_asked by blast
  obtain st where turn: "shared_step ex_calls False x (x\<lparr>server := st\<rparr>)" and "length (sent st) = 1"
    by (rule ex_turn_of [OF x(4,3), where fails = False]) simp_all
  with x have "shared_step ex_calls False (x\<lparr>server := st\<rparr>) (x\<lparr>server := st,
      callers := (callers x)(0 := Answered (frame_of ex_calls 0) (sent st ! 0)), got := 1\<rparr>)"
    using call_read [where x = "x\<lparr>server := st\<rparr>" and t = 0 and C = ex_calls and fails = False] by simp
  from reach_step [OF reach_step [OF x(1) turn] this]
  obtain y rsp where y: "reach ex_init (shared_step ex_calls False) y" "callers y 0 = Answered (frame_of ex_calls 0) rsp"
    by fastforce
  note P = callers_get_own_answers [OF y, where L = fifo_lru and ct' = fifo_ct and srv = ex_reuse
    and pr = "''/echo/1''" and N = ?N and pp = ex_peer_pkg and mp = ex_ma and to = "''16Uiu2''" and tm = 0
    and res = res and srv' = srv']
  have "written (trace srv') = [] \<or> map snd (written (trace srv')) = [frame_of ex_calls 0]"
    using P ex_srv_wf ex_client(1) N R old by simp
  moreover have "RawData_ID rsp = RawData_ID (frame_of ex_calls 0)" using P by blast
  ultimately show ?thesis
    by (intro exI [of _ y] exI [of _ rsp] exI [of _ res] exI [of _ srv'] conjI) (use y R in \<open>simp_all add: msg\<close>)
qed

text \<open>
  C26: a caller that waits can be answered. In every state that is reachable without a failure on the filed stream,
  at most one turn of the request loop and then the caller's own read bring a caller that has written its
  frame to its answer; nobody else moves, and the locks stay as they are.
\<close>

theorem waiting_caller_answered:
  assumes "reach (shared_init C ct tmo h f) (shared_step C False) x" and "callers x t = Asked n req"
  shows "\<exists>st rsp. (st = server x \<or> shared_step C False x (x\<lparr>server := st\<rparr>)) \<and>
    shared_step C False (x\<lparr>server := st\<rparr>)
      (x\<lparr>server := st, callers := (callers x)(t := Answered req rsp), got := Suc (got x)\<rparr>)"
proof -
  have inv: "shared_inv C ct h f x" and imp: "implements (c_env C) (c_stream C) (c_pk C) h f"
    using shared_calls.reach_inv [OF assms(1)] by (auto simp: serving_def)
  note D = shared_invD [OF inv]
  have A: "length (asked x) = Suc (got x)" "n = epoch x" using D(8) [OF assms(2)] by auto
  let ?n = "length (sent (server x))"
  obtain st where st: "st = server x \<or> shared_step C False x (x\<lparr>server := st\<rparr>)" "got x < length (sent st)"
  proof (cases "got x < ?n")
    case True
    then show ?thesis using that by blast
  next
    case False
    with D(5) A have n: "?n = got x" "?n < length (asked x)" by simp_all
    have "rErr (asked x ! ?n) = []" using D(7) n(2) by simp
    moreover obtain rest out w where "f (reader (rw (server x)) @ rData (asked x ! ?n)) (world (server x)) = (rest, out, w)"
      by (metis prod_cases3)
    ultimately obtain st where turn: "handle_turn (c_env C) (c_stream C) (Some (Secp256k1PublicKey (c_pk C)))
        (turn_of (asked x ! ?n)) (server x) = Return (Next st)" and "length (sent st) = Suc ?n"
      using handle_turn_serves [OF imp D(4,3)] by simp
    then show ?thesis using that [of st] shared_step.turn [OF n(2) turn] n(1) by simp
  qed
  have "shared_step C False (x\<lparr>server := st\<rparr>) ((x\<lparr>server := st\<rparr>)\<lparr>
      callers := (callers (x\<lparr>server := st\<rparr>))(t := Answered req (sent (server (x\<lparr>server := st\<rparr>)) ! got (x\<lparr>server := st\<rparr>))),
      got := Suc (got (x\<lparr>server := st\<rparr>))\<rparr>)"
    by (rule call_read) (use assms(2) A(2) st(2) in simp_all)
  then show ?thesis using st(1) by auto
qed

theorem waiting_caller_answered_witness:
  "\<exists>x y rsp. reach ex_init (shared_step ex_calls False) x \<and> callers x 0 = Asked (epoch x) (frame_of ex_calls 0) \<and>
     (shared_step ex_calls False)\<^sup>*\<^sup>* x y \<and> callers y 0 = Answered (frame_of ex_calls 0) rsp"
proof -
  obtain x where x: "reach ex_init (shared_step ex_calls False) x" "callers x 0 = Asked (epoch x) (frame_of ex_calls 0)"
    using ex_asked by blast
  obtain st rsp where st: "st = server x \<or> shared_step ex_calls False x (x\<lparr>server := st\<rparr>)"
    and y: "shared_step ex_calls False (x\<lparr>server := st\<rparr>)
      (x\<lparr>server := st, callers := (callers x)(0 := Answered (frame_of ex_calls 0) rsp), got := Suc (got x)\<rparr>)"
    using waiting_caller_answered [OF x] by blast
  let ?y = "x\<lparr>server := st, callers := (callers x)(0 := Answered (frame_of ex_calls 0) rsp), got := Suc (got x)\<rparr>"
  have "(shared_step ex_calls False)\<^sup>*\<^sup>* x (x\<lparr>server := st\<rparr>)"
    using st by (cases "st = server x") (simp, blast)
  then have "(shared_step ex_calls False)\<^sup>*\<^sup>* x ?y" using y by (rule rtranclp.rtrancl_into_rtrancl)
  moreover have "callers ?y 0 = Answered (frame_of ex_calls 0) rsp" by simp
  ultimately show ?thesis using x by blast
qed

text \<open>
  C10: after a failed call an answer can go to another caller. A state is reachable in which a caller has
  taken the answer to another caller's request as its own, data and id; the other one still waits on the stream.
\<close>

theorem answers_can_cross:
  "\<exists>x req rsp. reach (shared_init ex_calls (\<lambda>c. map_of (snd c)) 45 (StreamHandlerWithProtocol 0) (\<lambda>d w. ([], d, Suc w)))
       (shared_step ex_calls True) x \<and>
     callers x 2 = Answered req rsp \<and> rData req = [2] \<and> rData rsp = [1] \<and> RawData_ID req = 2 \<and> RawData_ID rsp = 1 \<and>
     callers x 1 = Asked 1 (frame_of ex_calls 1)"
proof -
  obtain x where x: "reach ex_init (shared_step ex_calls True) x" "callers x 1 = Asked 1 (frame_of ex_calls 1)"
     "callers x 2 = Answered (frame_of ex_calls 2) (response_frame (frame_of ex_calls 1) [1])"
    using ex_crossed by blast
  have "c_msg ex_calls 2 = [2]" "c_uuid ex_calls 1 = [1]" "c_uuid ex_calls 2 = [2]" by (simp_all add: ex_calls_def)
  then have "RawData_ID (frame_of ex_calls 1) = 1" "RawData_ID (frame_of ex_calls 2) = 2" "rData (frame_of ex_calls 2) = [2]"
    by (simp_all add: frame_of_def RawData_ID_New_nil bytes_to_nat_def)
  with x show ?thesis by (intro exI conjI) (assumption | simp)+
qed

end
