(* ===== verification/Dial.thy ===== *)
theory Dial
  imports Peers AsyncRunner
begin

text \<open>
  Connecting to peers, \<open>connectFn\<close>, \<open>convertPeers\<close> and \<open>randPeers\<close> of \<open>funcs.go\<close>. \<open>connectFn\<close> starts one goroutine
  per peer, which report their errors on a channel; it is a step relation over these goroutines. The
  answers of \<open>host.Connect\<close> and the parsers of addresses are parameters. \<open>randPeers\<close> appends a slice to a
  part of its own array, so slices are modelled with their backing array.
\<close>

record AddrInfo =
  ai_ID :: string
  ai_Addrs :: "string list"

subsection \<open>connectFn\<close>

text \<open>
  \<open>todo\<close> are the peers the caller still has to range over, \<open>dialing\<close> those of the goroutines that have not
  ended, \<open>errs\<close> the buffered channel, whose capacity is the number of peers, and \<open>dwg\<close> the wait group.
\<close>

record dial =
  todo :: "AddrInfo list"
  dialing :: "AddrInfo multiset"
  errs :: "string list"
  dwg :: int

definition dial_start :: "AddrInfo list \<Rightarrow> dial" where
  "dial_start peers = \<lparr>todo = peers, dialing = {#}, errs = [], dwg = 0\<rparr>"

inductive dial_step :: "string \<Rightarrow> (AddrInfo \<Rightarrow> err) \<Rightarrow> nat \<Rightarrow> dial \<Rightarrow> dial \<Rightarrow> bool"
  for self :: string and Connect :: "AddrInfo \<Rightarrow> err" and np :: nat where
  d_skip: "todo s = p # ps \<Longrightarrow> ai_ID p = self \<Longrightarrow> dial_step self Connect np s (s\<lparr>todo := ps\<rparr>)"
| d_go: "todo s = p # ps \<Longrightarrow> ai_ID p \<noteq> self \<Longrightarrow>
    dial_step self Connect np s (s\<lparr>todo := ps, dwg := dwg s + 1, dialing := add_mset p (dialing s)\<rparr>)"
| d_ok: "p \<in># dialing s \<Longrightarrow> Connect p = None \<Longrightarrow>
    dial_step self Connect np s (s\<lparr>dialing := dialing s - {#p#}, dwg := dwg s - 1\<rparr>)"
| d_err: "p \<in># dialing s \<Longrightarrow> Connect p = Some e \<Longrightarrow> length (errs s) < np \<Longrightarrow>
    dial_step self Connect np s (s\<lparr>dialing := dialing s - {#p#}, errs := errs s @ [e], dwg := dwg s - 1\<rparr>)"

text \<open>\<open>wg.Wait()\<close> is reached after the range loop and returns when the wait group is at zero.\<close>

definition dial_done :: "dial \<Rightarrow> bool" where
  "dial_done s \<longleftrightarrow> todo s = [] \<and> dwg s = 0"

text \<open>The loop over the closed channel counts the errors and keeps the last one.\<close>

fun range_errs :: "string list \<Rightarrow> nat \<times> err \<Rightarrow> nat \<times> err" where
  "range_errs [] r = r"
| "range_errs (e # es) (n, _) = range_errs es (n + 1, Some e)"

definition connect_result :: "nat \<Rightarrow> string list \<Rightarrow> err" where
  "connect_result np es =
     (let (count, e) = range_errs es (0, None) in
      if count = np
      then Some (''failed to connect. '' @ (case e of None \<Rightarrow> ''%!s(<nil>)'' | Some t \<Rightarrow> t))
      else None)"

text \<open>The results \<open>connectFn\<close> can have, over all schedules of its goroutines.\<close>

definition connectFn :: "string \<Rightarrow> (AddrInfo \<Rightarrow> err) \<Rightarrow> AddrInfo list \<Rightarrow> err \<Rightarrow> bool" where
  "connectFn self Connect peers r \<longleftrightarrow>
     (if peers = [] then r = Some ''not enough peers to connect''
      else \<exists>s. reach (\<lambda>s. s = dial_start peers) (dial_step self Connect (length peers)) s \<and> dial_done s \<and>
        r = connect_result (length peers) (errs s))"

subsection \<open>Every schedule ends, with the same verdict\<close>

definition dial_fails :: "string \<Rightarrow> (AddrInfo \<Rightarrow> err) \<Rightarrow> AddrInfo \<Rightarrow> bool" where
  "dial_fails self Connect p \<longleftrightarrow> ai_ID p \<noteq> self \<and> Connect p \<noteq> None"

definition dial_inv :: "string \<Rightarrow> (AddrInfo \<Rightarrow> err) \<Rightarrow> AddrInfo list \<Rightarrow> dial \<Rightarrow> bool" where
  "dial_inv self Connect peers s \<longleftrightarrow>
     dwg s = int (size (dialing s)) \<and> (\<forall>p \<in># dialing s. ai_ID p \<noteq> self) \<and>
     length (errs s) + size (filter_mset (dial_fails self Connect) (dialing s)) +
       length (filter (dial_fails self Connect) (todo s)) = length (filter (dial_fails self Connect) peers) \<and>
     (\<forall>e \<in> set (errs s). \<exists>p \<in> set peers. Connect p = Some e) \<and>
     set_mset (dialing s) \<union> set (todo s) \<subseteq> set peers"

definition dial_measure :: "dial \<Rightarrow> nat" where
  "dial_measure s = 2 * length (todo s) + size (dialing s)"

lemma dial_inv_start: "dial_inv self Connect peers (dial_start peers)"
  by (simp add: dial_inv_def dial_start_def)

lemma dial_inv_step:
  assumes "dial_inv self Connect peers s" and "dial_step self Connect np s t"
  shows "dial_inv self Connect peers t"
  using assms(2,1)
proof cases
  case (d_ok p)
  obtain R where "dialing s = add_mset p R" using multi_member_split [OF d_ok(2)] by blast
  with d_ok assms(1) show ?thesis by (auto simp: dial_inv_def dial_fails_def)
next
  case (d_err p e)
  obtain R where "dialing s = add_mset p R" using multi_member_split [OF d_err(2)] by blast
  with d_err assms(1) show ?thesis by (auto simp: dial_inv_def dial_fails_def)
qed (auto simp: dial_inv_def dial_fails_def)

lemma dial_step_less: "dial_step self Connect np s t \<Longrightarrow> dial_measure t < dial_measure s"
proof (erule dial_step.cases)
  fix s' p assume "s = s'" "t = s'\<lparr>dialing := dialing s' - {#p#}, dwg := dwg s' - 1\<rparr>" "p \<in># dialing s'"
  then show ?thesis by (simp add: dial_measure_def size_Diff1_less)
next
  fix s' p e assume "s = s'" "t = s'\<lparr>dialing := dialing s' - {#p#}, errs := errs s' @ [e], dwg := dwg s' - 1\<rparr>"
    "p \<in># dialing s'"
  then show ?thesis by (simp add: dial_measure_def size_Diff1_less)
qed (simp_all add: dial_measure_def)

text \<open>No goroutine waits for room in the channel.\<close>

lemma dial_progress:
  assumes "dial_inv self Connect peers s" and "\<not> dial_done s"
  shows "\<exists>t. dial_step self Connect (length peers) s t"
proof (cases "todo s")
  case (Cons p ps)
  then show ?thesis by (cases "ai_ID p = self") (blast intro: dial_step.intros)+
next
  case Nil
  then obtain p R where D: "dialing s = add_mset p R" and p: "p \<in># dialing s"
    using assms by (cases "dialing s") (auto simp: dial_done_def dial_inv_def)
  show ?thesis
  proof (cases "Connect p")
    case None
    then show ?thesis using p by (blast intro: d_ok)
  next
    case (Some e)
    have "ai_ID p \<noteq> self" using assms(1) p by (auto simp: dial_inv_def)
    then have "length (errs s) < length (filter (dial_fails self Connect) peers)"
      using assms(1) D Nil Some by (auto simp: dial_inv_def dial_fails_def)
    then have "length (errs s) < length peers" using length_filter_le order_less_le_trans by blast
    then show ?thesis using p Some by (blast intro: d_err)
  qed
qed

interpretation dials: terminating_system "\<lambda>s. s = dial_start peers" "dial_step self Connect (length peers)"
    "dial_inv self Connect peers" dial_measure dial_done
  for self Connect peers
  by unfold_locales (auto intro: dial_inv_start dial_inv_step dial_step_less dial_progress)

lemma range_errs_eq: "range_errs es (n, e) = (n + length es, if es = [] then e else Some (last es))"
  by (induction es arbitrary: n e) auto

lemma connect_result_eq:
  "es \<noteq> [] \<Longrightarrow> connect_result np es = (if length es = np then Some (''failed to connect. '' @ last es) else None)"
  by (simp add: connect_result_def range_errs_eq)

lemma all_fail_iff: "length (filter P xs) = length xs \<longleftrightarrow> (\<forall>x \<in> set xs. P x)"
  by (metis filter_id_conv filter_True length_filter_less less_irrefl)

lemma dial_final:
  assumes "reach (\<lambda>s. s = dial_start peers) (dial_step self Connect (length peers)) s" and "dial_done s"
  shows "length (errs s) = length (filter (dial_fails self Connect) peers)"
    and "\<forall>e \<in> set (errs s). \<exists>p \<in> set peers. Connect p = Some e"
proof -
  have inv: "dial_inv self Connect peers s" using assms(1) by (rule dials.reach_inv)
  then have "dialing s = {#}" using assms(2) by (simp add: dial_inv_def dial_done_def)
  with inv assms(2) show "length (errs s) = length (filter (dial_fails self Connect) peers)"
    and "\<forall>e \<in> set (errs s). \<exists>p \<in> set peers. Connect p = Some e"
    by (simp_all add: dial_inv_def dial_done_def)
qed

lemma connectFn_error:
  assumes "connectFn self Connect peers r"
  shows "(r \<noteq> None \<longleftrightarrow> (\<forall>p \<in> set peers. ai_ID p \<noteq> self \<and> Connect p \<noteq> None)) \<and>
    (\<forall>t. peers \<noteq> [] \<and> r = Some t \<longrightarrow> (\<exists>p \<in> set peers. \<exists>e. Connect p = Some e \<and> t = ''failed to connect. '' @ e))"
proof (cases "peers = []")
  case False
  then obtain s where s: "reach (\<lambda>s. s = dial_start peers) (dial_step self Connect (length peers)) s" "dial_done s"
    and r: "r = connect_result (length peers) (errs s)"
    using assms by (auto simp: connectFn_def)
  have all: "length (filter (dial_fails self Connect) peers) = length peers \<longleftrightarrow>
      (\<forall>p \<in> set peers. ai_ID p \<noteq> self \<and> Connect p \<noteq> None)"
    by (simp add: all_fail_iff dial_fails_def)
  show ?thesis
  proof (cases "errs s = []")
    case True
    then show ?thesis using dial_final [OF s] False r all by (auto simp: connect_result_def)
  next
    case nonempty: False
    then show ?thesis using dial_final [OF s] r all by (auto simp: connect_result_eq)
  qed
qed (use assms in \<open>simp add: connectFn_def\<close>)

lemma connectFn_verdict:
  "connectFn self Connect peers r \<Longrightarrow> r \<noteq> None \<longleftrightarrow> (\<forall>p \<in> set peers. ai_ID p \<noteq> self \<and> Connect p \<noteq> None)"
  using connectFn_error by blast

text \<open>
  C14: \<open>connectFn\<close> on every schedule of its goroutines: it fails exactly when there is no peer at all or
  every peer is another one and its connection failed, and the message ends in one of their errors. A
  list that contains the host itself never fails, however many connections did.
\<close>

theorem connectFn_error_iff:
  assumes "connectFn self Connect peers r"
  shows "(r \<noteq> None \<longleftrightarrow> (\<forall>p \<in> set peers. ai_ID p \<noteq> self \<and> Connect p \<noteq> None)) \<and>
    (\<forall>t. peers \<noteq> [] \<and> r = Some t \<longrightarrow> (\<exists>p \<in> set peers. \<exists>e. Connect p = Some e \<and> t = ''failed to connect. '' @ e))"
  using assms by (rule connectFn_error)

text \<open>
  C22: \<open>connectFn\<close> returns on every schedule: from every state its goroutines can reach some run leads to
  the return of \<open>wg.Wait\<close>, no state before it is stuck (the channel always has room for an error), and no
  run has more steps than twice the number of peers.
\<close>

theorem connectFn_terminates:
  assumes "reach (\<lambda>s. s = dial_start peers) (dial_step self Connect (length peers)) s"
  shows "(\<exists>t. (dial_step self Connect (length peers))\<^sup>*\<^sup>* s t \<and> dial_done t) \<and>
    (dial_done s \<or> (\<exists>t. dial_step self Connect (length peers) s t)) \<and>
    (\<forall>n t. (dial_step self Connect (length peers) ^^ n) (dial_start peers) t \<longrightarrow> n \<le> 2 * length peers)"
proof (intro conjI)
  have inv: "dial_inv self Connect peers s" using assms by (rule dials.reach_inv)
  show "\<exists>t. (dial_step self Connect (length peers))\<^sup>*\<^sup>* s t \<and> dial_done t" using inv by (rule dials.ends_final)
  show "dial_done s \<or> (\<exists>t. dial_step self Connect (length peers) s t)" using dials.progress [OF inv] by blast
  show "\<forall>n t. (dial_step self Connect (length peers) ^^ n) (dial_start peers) t \<longrightarrow> n \<le> 2 * length peers"
    using dials.run_bounded [OF dial_inv_start] by (fastforce simp: dial_measure_def dial_start_def)
qed

definition ex_peers :: "AddrInfo list" where
  "ex_peers = [\<lparr>ai_ID = ''QmA'', ai_Addrs = [''/ip4/1'']\<rparr>, \<lparr>ai_ID = ''QmB'', ai_Addrs = []\<rparr>]"

definition ex_Connect :: "AddrInfo \<Rightarrow> err" where
  "ex_Connect p = (if ai_Addrs p = [] then Some ''no addresses'' else None)"

definition ex_dialed :: dial where
  "ex_dialed = \<lparr>todo = [], dialing = {#}, errs = [''no addresses''], dwg = 0\<rparr>"

lemma ex_dialed_reach: "reach (\<lambda>s. s = dial_start ex_peers) (dial_step ''QmA'' ex_Connect (length ex_peers)) ex_dialed"
proof -
  let ?p = "\<lparr>ai_ID = ''QmB'', ai_Addrs = []\<rparr>"
  let ?r = "reach (\<lambda>s. s = dial_start ex_peers) (dial_step ''QmA'' ex_Connect (length ex_peers))"
  have "?r (dial_start ex_peers)" by (rule reach_init) simp
  then have "?r \<lparr>todo = [?p], dialing = {#}, errs = [], dwg = 0\<rparr>"
    by (rule reach_step) (use d_skip [of "dial_start ex_peers"] in \<open>simp add: dial_start_def ex_peers_def\<close>)
  then have "?r \<lparr>todo = [], dialing = {#?p#}, errs = [], dwg = 1\<rparr>"
    by (rule reach_step) (use d_go [of "\<lparr>todo = [?p], dialing = {#}, errs = [], dwg = 0\<rparr>" ?p] in simp)
  then show ?thesis
    by (rule reach_step)
      (use d_err [of ?p "\<lparr>todo = [], dialing = {#?p#}, errs = [], dwg = 1\<rparr>"] in
        \<open>simp add: ex_dialed_def ex_Connect_def ex_peers_def\<close>)
qed

theorem connectFn_error_iff_witness:
  "connectFn ''QmA'' ex_Connect ex_peers None \<and> \<not> connectFn ''QmA'' ex_Connect ex_peers (Some ''failed to connect. no addresses'')"
proof -
  have "connectFn ''QmA'' ex_Connect ex_peers None"
    unfolding connectFn_def using ex_dialed_reach
    by (auto simp: ex_peers_def dial_done_def ex_dialed_def connect_result_def intro!: exI [of _ ex_dialed])
  moreover have "\<not> connectFn ''QmA'' ex_Connect ex_peers (Some t)" for t
    using connectFn_error_iff [of "''QmA''" ex_Connect ex_peers "Some t"] by (auto simp: ex_peers_def)
  ultimately show ?thesis by simp
qed

theorem connectFn_terminates_witness:
  "\<exists>t. (dial_step ''QmA'' ex_Connect (length ex_peers))\<^sup>*\<^sup>* ex_dialed t \<and> dial_done t"
  using connectFn_terminates [OF ex_dialed_reach] by blast

end
