(* ===== verification/Bootstrap.thy ===== *)
theory Bootstrap
  imports Dial Service
begin

text \<open>
  How a service stays connected: the bootnodes and their parsing, the choice of other peers to dial,
  \<open>BootstrapOnce\<close>, one round of the bootstrap loop and its period, and the two flags, package variables,
  that keep the loops of one process apart; \<open>Connect\<close> and \<open>PreConnect\<close>.
\<close>

subsection \<open>Parsing peers\<close>

text \<open>\<open>ma.StringCast\<close> panics on a text that is no multiaddress, here \<open>None\<close>.\<close>

record 'm addr_pkg =
  ma_StringCast :: "string \<Rightarrow> 'm option"
  AddrInfoFromP2pAddr :: "'m \<Rightarrow> string + AddrInfo"

fun convertPeers :: "'m addr_pkg \<Rightarrow> string list \<Rightarrow> (string + AddrInfo list) outcome" where
  "convertPeers ap [] = Return (Inr [])"
| "convertPeers ap (addr # peers) =
     (case ma_StringCast ap addr of
        None \<Rightarrow> Panic ''multiaddr failed to parse''
      | Some maddr \<Rightarrow>
          (case AddrInfoFromP2pAddr ap maddr of
             Inl e \<Rightarrow> Return (Inl e)
           | Inr p \<Rightarrow>
               bind_outcome (convertPeers ap peers) (\<lambda>r.
                 case r of Inl e \<Rightarrow> Return (Inl e) | Inr ps \<Rightarrow> Return (Inr (p # ps)))))"

text \<open>The part of the service that the bootstrap uses; \<open>None\<close> is the nil slice of bootnodes.\<close>

record boot_srv =
  bootnodes :: "AddrInfo list option"
  clientProtocols :: "string list"

definition boot_list :: "boot_srv \<Rightarrow> AddrInfo list" where
  "boot_list B = (case bootnodes B of None \<Rightarrow> [] | Some bn \<Rightarrow> bn)"

definition SetBootnode :: "'m addr_pkg \<Rightarrow> string list \<Rightarrow> boot_srv \<Rightarrow> (err \<times> boot_srv) outcome" where
  "SetBootnode ap peers B =
     bind_outcome (convertPeers ap peers) (\<lambda>r.
       case r of
         Inl e \<Rightarrow> Return (Some e, B\<lparr>bootnodes := None\<rparr>)
       | Inr ps \<Rightarrow> Return (None, B\<lparr>bootnodes := Some ps\<rparr>))"

subsection \<open>Slices over a backing array\<close>

record 'a slice =
  arr :: "'a list"
  off :: nat
  len :: nat

definition slice_ok :: "'a slice \<Rightarrow> bool" where
  "slice_ok s \<longleftrightarrow> off s + len s \<le> length (arr s)"

definition slice_list :: "'a slice \<Rightarrow> 'a list" where
  "slice_list s = take (len s) (drop (off s) (arr s))"

definition reslice :: "'a slice \<Rightarrow> nat \<Rightarrow> nat \<Rightarrow> 'a slice outcome" where
  "reslice s i j =
     (if i \<le> j \<and> j \<le> length (arr s) - off s then Return (s\<lparr>off := off s + i, len := j - i\<rparr>)
      else Panic ''slice bounds out of range'')"

text \<open>
  \<open>append\<close> writes behind the slice when its capacity has room, and copies to a new array otherwise,
  whose spare room is \<open>grow\<close>.
\<close>

definition go_append :: "'a list \<Rightarrow> 'a slice \<Rightarrow> 'a list \<Rightarrow> 'a slice" where
  "go_append grow s xs =
     (if off s + len s + length xs \<le> length (arr s)
      then s\<lparr>arr := take (off s + len s) (arr s) @ xs @ drop (off s + len s + length xs) (arr s), len := len s + length xs\<rparr>
      else \<lparr>arr = slice_list s @ xs @ grow, off = 0, len = len s + length xs\<rparr>)"

text \<open>
  \<open>rnd\<close> is the number that the bytes of a fresh RSA key spell, \<open>None\<close> when the key could not be made;
  \<open>Mod\<close> by zero panics.
\<close>

definition randPeers :: "'a list \<Rightarrow> nat option \<Rightarrow> 'a slice \<Rightarrow> nat \<Rightarrow> 'a list outcome" where
  "randPeers grow rnd others limit =
     (case rnd of
        None \<Rightarrow> Return []
      | Some r \<Rightarrow>
          if len others = 0 then Panic ''division by zero''
          else
            (let n = r mod len others in
             bind_outcome (reslice others n (len others)) (\<lambda>a.
             bind_outcome (reslice others 0 n) (\<lambda>b.
             bind_outcome (reslice (go_append grow a (slice_list b)) 0 limit) (\<lambda>res.
               Return (slice_list res))))))"

subsection \<open>Other peers to dial\<close>

text \<open>What libp2p's peer store and host answer during one round; \<open>h_rnd\<close> and \<open>h_spare\<close> are for \<open>randPeers\<close>.\<close>

record boot_host =
  h_self :: string
  h_Peers :: "string list"
  h_PeerInfo :: "string \<Rightarrow> AddrInfo"
  h_Protocols :: "string \<Rightarrow> string + string list"
  h_Connect :: "AddrInfo \<Rightarrow> err"
  h_Bootstrap :: err
  h_rnd :: "nat option"
  h_spare :: "AddrInfo list"

text \<open>
  The loop over the protocols of a peer. The result says whether the peer is to be skipped; the \<open>continue\<close> of the
  source goes on with this loop over the protocols, so it never is.
\<close>

fun client_loop :: "string list \<Rightarrow> string list \<Rightarrow> bool" where
  "client_loop clients [] = False"
| "client_loop clients (p # protols) =
     (if p \<in> set clients then client_loop clients protols else client_loop clients protols)"

fun others_loop :: "string peer_pkg \<Rightarrow> boot_host \<Rightarrow> string list \<Rightarrow> string list \<Rightarrow> string list \<Rightarrow>
    AddrInfo list \<Rightarrow> AddrInfo list" where
  "others_loop pp H bootmap clients [] result = result"
| "others_loop pp H bootmap clients (p # ps) result =
     (if ID_Pretty pp p \<in> set bootmap then others_loop pp H bootmap clients ps result
      else if ID_Pretty pp p = ID_Pretty pp (h_self H) then others_loop pp H bootmap clients ps result
      else if (case GetProtocols pp (h_Protocols H) (ID_Pretty pp p) of
                 Inr protols \<Rightarrow> client_loop clients protols | Inl _ \<Rightarrow> False)
        then others_loop pp H bootmap clients ps result
      else
        (let info = h_PeerInfo H p in
         others_loop pp H bootmap clients ps (if ai_Addrs info \<noteq> [] then result @ [info] else result)))"

definition peersWithoutBootnodes :: "string peer_pkg \<Rightarrow> boot_host \<Rightarrow> boot_srv \<Rightarrow> AddrInfo list" where
  "peersWithoutBootnodes pp H B =
     others_loop pp H (map (\<lambda>b. ID_Pretty pp (ai_ID b)) (boot_list B)) (clientProtocols B) (h_Peers H) []"

subsection \<open>One round of the loop\<close>

text \<open>What a round makes the host and the router do.\<close>

datatype boot_call = Dial "AddrInfo list" | RouterBootstrap | KeepAddrs AddrInfo

text \<open>\<open>dial\<close> is the result of \<open>connectFn\<close> for a list of peers, one of those that its schedules allow.\<close>

definition BootstrapOnce :: "boot_host \<Rightarrow> boot_srv \<Rightarrow> err \<times> boot_call list" where
  "BootstrapOnce H B = (h_Bootstrap H, [Dial (boot_list B), RouterBootstrap] @ map KeepAddrs (boot_list B))"

text \<open>The state is the flag \<open>loopbootstrap\<close>.\<close>

definition boot_round :: "(AddrInfo list \<Rightarrow> err) \<Rightarrow> string peer_pkg \<Rightarrow> boot_host \<Rightarrow> boot_srv \<Rightarrow> int \<Rightarrow>
    (boot_call list \<times> int) outcome" where
  "boot_round dial pp H B loopbootstrap =
     (case bootnodes B of
        None \<Rightarrow> Return ([], loopbootstrap)
      | Some bn \<Rightarrow>
          (let others = peersWithoutBootnodes pp H B; total = length others in
           case dial bn of
             None \<Rightarrow>
               if loopbootstrap = 0 then Return ([Dial bn, RouterBootstrap], 1)
               else Return (Dial bn # snd (BootstrapOnce H B), loopbootstrap)
           | Some _ \<Rightarrow>
               if total > 0 then
                 bind_outcome
                   (randPeers [] (h_rnd H) \<lparr>arr = others @ h_spare H, off = 0, len = total\<rparr> (if total < 3 then total else 3))
                   (\<lambda>tasks. Return ([Dial bn, Dial tasks], loopbootstrap))
               else Return ([Dial bn], loopbootstrap)))"

text \<open>The period in seconds, and the wait between two rounds: \<open>time.Duration(period) * time.Second\<close> in \<open>int64\<close>.\<close>

definition boot_period :: "Config \<Rightarrow> 64 word" where
  "boot_period c = (if BootstrapPeriod c > 5 then BootstrapPeriod c else 5)"

definition boot_delay :: "Config \<Rightarrow> int" where
  "boot_delay c = sint (boot_period c * 1000000000)"

subsection \<open>The loops of one process\<close>

text \<open>
  \<open>loopboot\<close> and \<open>loopbootstrap\<close> are package variables. A call of \<open>bootstrap\<close> starts a goroutine that runs the
  loop when its compare-and-swap succeeds; when its context ends it clears the flags, one after the other.
\<close>

record boot_loops =
  loopboot :: int
  loopbootstrap :: int
  starting :: nat
  looping :: nat
  leaving :: nat

definition no_loops :: boot_loops where
  "no_loops = \<lparr>loopboot = 0, loopbootstrap = 0, starting = 0, looping = 0, leaving = 0\<rparr>"

inductive loop_step :: "boot_loops \<Rightarrow> boot_loops \<Rightarrow> bool" where
  b_call: "loop_step s (s\<lparr>starting := starting s + 1\<rparr>)"
| b_cas: "starting s > 0 \<Longrightarrow>
    loop_step s (if loopboot s = 0 then s\<lparr>loopboot := 1, starting := starting s - 1, looping := looping s + 1\<rparr>
                 else s\<lparr>starting := starting s - 1\<rparr>)"
| b_round: "looping s > 0 \<Longrightarrow> boot_round dial pp H B (loopbootstrap s) = Return (cs, f) \<Longrightarrow>
    loop_step s (s\<lparr>loopbootstrap := f\<rparr>)"
| b_leave1: "looping s > 0 \<Longrightarrow>
    loop_step s (s\<lparr>looping := looping s - 1, leaving := leaving s + 1, loopboot := 0\<rparr>)"
| b_leave2: "leaving s > 0 \<Longrightarrow> loop_step s (s\<lparr>leaving := leaving s - 1, loopbootstrap := 0\<rparr>)"

subsection \<open>Connect and PreConnect\<close>

text \<open>\<open>Connect\<close> gives the address without its peer part to the host, whose answer is \<open>conn\<close>.\<close>

definition Connect_to :: "'m ma_pkg \<Rightarrow> string peer_pkg \<Rightarrow> (string \<Rightarrow> 'm \<Rightarrow> err) \<Rightarrow> string \<Rightarrow> err" where
  "Connect_to mp pp conn url =
     (case NewMultiaddr mp url of
        Inl e \<Rightarrow> Some e
      | Inr a \<Rightarrow>
          (case ValueForProtocol_IPFS mp a of
             Inl e \<Rightarrow> Some e
           | Inr pid \<Rightarrow>
               (case peer_Decode pp pid of
                  Inl e \<Rightarrow> Some e
                | Inr peerid \<Rightarrow>
                    (let tpa = (case NewMultiaddr mp (''/p2p/'' @ ID_Pretty pp peerid) of Inl _ \<Rightarrow> None | Inr m \<Rightarrow> Some m) in
                     conn peerid (Decapsulate mp a tpa)))))"

text \<open>\<open>PreConnect\<close> answers the error and the id it has protected with the tag \<open>pre\<close>, until the timer unprotects it.\<close>

definition PreConnect :: "(AddrInfo list \<Rightarrow> err) \<Rightarrow> string peer_pkg \<Rightarrow> (string \<Rightarrow> string + AddrInfo) \<Rightarrow> PublicKey \<Rightarrow>
    err \<times> (string \<times> string) option" where
  "PreConnect dial pp FindPeer pubkey =
     (case IDFromPublicKey pp (ecdsaToPubkey pubkey) of
        (_, Some e) \<Rightarrow> (Some e, None)
      | (i, None) \<Rightarrow>
          (case findpeer pp FindPeer (ID_Pretty pp i) of
             Inl e \<Rightarrow> (Some e, None)
           | Inr info \<Rightarrow>
               (case dial [info] of Some e \<Rightarrow> (Some e, None) | None \<Rightarrow> (None, Some (i, ''pre'')))))"

end
