(* ===== verification/Events.thy ===== *)
theory Events
  imports Bootstrap Messaging
begin

text \<open>
  Connection events and the start of a service: the closures that \<open>OnConnected\<close>, \<open>OnConnectedEvent\<close> and
  \<open>OnDisconnected\<close> hand to the network, \<open>Start\<close>, which registers them, and the counter goroutine. A
  callback is data; a closure's result says with which arguments it calls the callback, if it does.
\<close>

subsection \<open>Which connections an event is for\<close>

text \<open>\<open>ConnType\<close> is an integer; a value that is none of the three constants filters nothing.\<close>

type_synonym ConnType = int

definition CONNT_TYPE_DIRECT :: ConnType where "CONNT_TYPE_DIRECT = 0"
definition CONN_TYPE_RELAY :: ConnType where "CONN_TYPE_RELAY = 1"
definition CONN_TYPE_ALL :: ConnType where "CONN_TYPE_ALL = 2"

definition conn_passes :: "(string \<Rightarrow> string \<Rightarrow> string) \<Rightarrow> conn list \<Rightarrow> ConnType \<Rightarrow> conn \<Rightarrow> bool" where
  "conn_passes enc conns t c =
     (if t = CONNT_TYPE_DIRECT then isDirectFn enc conns (c_RemotePeer c)
      else if t = CONN_TYPE_RELAY then \<not> isDirectFn enc conns (c_RemotePeer c)
      else True)"

text \<open>\<open>in\<close> keeps its zero value when the direction is unknown.\<close>

definition conn_in :: "conn \<Rightarrow> bool" where
  "conn_in c = (case c_Direction c of DirInbound \<Rightarrow> True | DirOutbound \<Rightarrow> False | DirUnknown \<Rightarrow> False)"

text \<open>The key of the remote peer; the error of \<open>id2pubkey\<close> is ignored and a nil key panics in the conversion.\<close>

definition conn_key :: "('k, string, PubKey) lru_ops \<Rightarrow> string peer_pkg \<Rightarrow> conn \<Rightarrow> 'k \<Rightarrow> (PublicKey \<times> 'k) outcome" where
  "conn_key C pp c kc =
     (let (pk, kc1) = id2pubkey_nil C pp (c_RemotePeer c) kc in
      bind_outcome (pubkeyToEcdsa pk) (\<lambda>k. Return (k, kc1)))"

subsection \<open>OnConnected\<close>

text \<open>
  The closure of \<open>OnConnected\<close>: an outbound connection first exchanges the message that \<open>preMsg\<close> gives, in a
  request with 20 seconds; the callback gets the answer, or eight zero bytes and the error's text.
\<close>

definition connected_event :: "('k, string, PubKey) lru_ops \<Rightarrow> 'c lru \<Rightarrow> string peer_pkg \<Rightarrow> 'm ma_pkg \<Rightarrow> net \<Rightarrow>
    (string \<Rightarrow> string \<Rightarrow> string) \<Rightarrow> conn list \<Rightarrow> ConnType \<Rightarrow> (string \<times> byte list) option \<Rightarrow> conn \<Rightarrow>
    'k \<times> ('c, 'h, 'm) Service \<Rightarrow>
    ((bool \<times> string \<times> PublicKey \<times> byte list) option \<times> 'k \<times> ('c, 'h, 'm) Service) outcome" where
  "connected_event C L pp mp N enc conns t preMsg c ks =
     (let (kc, srv) = ks in
      if \<not> conn_passes enc conns t c then Return (None, kc, srv)
      else
        bind_outcome (conn_key C pp c kc) (\<lambda>(pubkey, kc1).
          case (if conn_in c then None else preMsg) of
            None \<Rightarrow> Return (Some (conn_in c, conn_session c, pubkey, []), kc1, srv)
          | Some (proto, pkg) \<Rightarrow>
              bind_outcome (RequestWithTimeout L pp mp N (c_RemotePeer c) proto pkg (20 * 1000000000) srv)
                (\<lambda>((resp, e), srv1).
                  let preRtn = (case e of None \<Rightarrow> resp | Some t \<Rightarrow> replicate 8 0 @ bytes_of t) in
                  Return (Some (conn_in c, conn_session c, pubkey, preRtn), kc1, srv1))))"

subsection \<open>OnConnectedEvent\<close>

text \<open>
  The goroutine that waits for the identification of the peer: at most twenty looks at the peer store, a
  timer of 100 ms after each that fails. The result says whether the callback was called and how often
  the timer was awaited; \<open>pstore i\<close> is the peer store at the \<open>i\<close>-th look.
\<close>

function event_poll :: "string peer_pkg \<Rightarrow> (nat \<Rightarrow> string \<Rightarrow> string \<Rightarrow> string + 'v) \<Rightarrow> string \<Rightarrow> nat \<Rightarrow> bool \<times> nat" where
  "event_poll pp pstore p i =
     (if i < 20 then
        (let r1 = GetPeerMeta pp (pstore i) p ''ProtocolVersion'';
             r2 = GetPeerMeta pp (pstore i) p ''AgentVersion'' in
         if \<not> isl r1 \<and> \<not> isl r2 then (True, 0)
         else (case event_poll pp pstore p (i + 1) of (called, waits) \<Rightarrow> (called, waits + 1)))
      else (False, 0))"
  by pat_completeness auto
termination
  by (relation "measure (\<lambda>(pp, pstore, p, i). 20 - i)") auto

declare event_poll.simps [simp del]

definition connected_event_poll :: "('k, string, PubKey) lru_ops \<Rightarrow> string peer_pkg \<Rightarrow> (string \<Rightarrow> string \<Rightarrow> string) \<Rightarrow>
    conn list \<Rightarrow> ConnType \<Rightarrow> conn \<Rightarrow> (nat \<Rightarrow> string \<Rightarrow> string \<Rightarrow> string + 'v) \<Rightarrow> 'k \<Rightarrow>
    ((bool \<times> string \<times> PublicKey) option \<times> nat \<times> 'k) outcome" where
  "connected_event_poll C pp enc conns t c pstore kc =
     (if \<not> conn_passes enc conns t c then Return (None, 0, kc)
      else
        bind_outcome (conn_key C pp c kc) (\<lambda>(pubkey, kc1).
          case event_poll pp pstore (c_RemotePeer c) 0 of
            (called, waits) \<Rightarrow>
              Return (if called then Some (conn_in c, conn_session c, pubkey) else None, waits, kc1)))"

subsection \<open>OnDisconnected\<close>

definition disconnected_event :: "('k, string, PubKey) lru_ops \<Rightarrow> string peer_pkg \<Rightarrow> conn \<Rightarrow> 'k \<Rightarrow>
    ((string \<times> PublicKey) \<times> 'k) outcome" where
  "disconnected_event C pp c kc =
     bind_outcome (conn_key C pp c kc) (\<lambda>(pubkey, kc1). Return ((conn_session c, pubkey), kc1))"

text \<open>The callback that \<open>newService\<close> itself registers for disconnections.\<close>

definition clean_streams :: "'c lru \<Rightarrow> string peer_pkg \<Rightarrow> PublicKey \<Rightarrow> ('c, 'h) AStreamCache \<Rightarrow>
    ('c, 'h) AStreamCache outcome" where
  "clean_streams L pp pubKey p = del2 L (fst (ECDSAPubEncode pp pubKey)) [] [] p"

definition on_disconnect :: "('k, string, PubKey) lru_ops \<Rightarrow> 'c lru \<Rightarrow> string peer_pkg \<Rightarrow> conn \<Rightarrow>
    'k \<times> ('c, 'h) AStreamCache \<Rightarrow> ('k \<times> ('c, 'h) AStreamCache) outcome" where
  "on_disconnect C L pp c kp =
     bind_outcome (disconnected_event C pp c (fst kp)) (\<lambda>((sid, pubKey), kc1).
       bind_outcome (clean_streams L pp pubKey (snd kp)) (\<lambda>p1. Return (kc1, p1)))"

text \<open>The callback of a service with \<open>DisableInbound\<close>.\<close>

definition reject_inbound :: "string peer_pkg \<Rightarrow> (string \<Rightarrow> 'nw \<Rightarrow> err \<times> 'nw) \<Rightarrow> bool \<Rightarrow> PublicKey \<Rightarrow> 'nw \<Rightarrow> 'nw" where
  "reject_inbound pp net_ClosePeer inbound pubKey nw =
     (if inbound then snd (ClosePeer pp net_ClosePeer pubKey nw) else nw)"

subsection \<open>Registration and Start\<close>

datatype 'cb srv_callback = CleanStreams | RejectInbound | UserCallback 'cb

datatype 'cb notify_bundle =
    NotifyConnected ConnType "(string \<times> byte list) option" "'cb srv_callback"
  | NotifyConnectedEvent ConnType "'cb srv_callback"
  | NotifyDisconnected "'cb srv_callback"

definition OnConnected :: "ConnType \<Rightarrow> (string \<times> byte list) option \<Rightarrow> 'cb srv_callback \<Rightarrow> 'cb notify_bundle list \<Rightarrow>
    'cb notify_bundle list" where
  "OnConnected t preMsg cb notifiee = notifiee @ [NotifyConnected t preMsg cb]"

definition OnConnectedEvent :: "ConnType \<Rightarrow> 'cb srv_callback \<Rightarrow> 'cb notify_bundle list \<Rightarrow> 'cb notify_bundle list" where
  "OnConnectedEvent t cb notifiee = notifiee @ [NotifyConnectedEvent t cb]"

definition OnDisconnected :: "'cb srv_callback \<Rightarrow> 'cb notify_bundle list \<Rightarrow> 'cb notify_bundle list" where
  "OnDisconnected cb notifiee = notifiee @ [NotifyDisconnected cb]"

text \<open>What \<open>newService\<close> registers.\<close>

definition new_notifiee :: "Config \<Rightarrow> 'cb notify_bundle list" where
  "new_notifiee c =
     (let ns = OnDisconnected CleanStreams [] in
      if DisableInbound c then OnConnected CONN_TYPE_ALL None RejectInbound ns else ns)"

text \<open>
  \<open>Start\<close> registers the closures with the network, starts the bootstrap when \<open>Discover\<close> is set, and
  sets an environment variable for each namespace with a lifetime.
\<close>

record 'cb started =
  notified :: "'cb notify_bundle list"
  counters :: nat
  bootstraps :: nat
  environ :: "string \<rightharpoonup> string"

fun set_ttls :: "(string \<times> int) list \<Rightarrow> (string \<rightharpoonup> string) \<Rightarrow> string \<rightharpoonup> string" where
  "set_ttls [] e = e"
| "set_ttls ((ns, ttl) # ts) e = set_ttls ts (e(''advertise_'' @ ns \<mapsto> dec_int ttl))"

definition Start :: "Config \<Rightarrow> 'cb notify_bundle list \<Rightarrow> (string \<times> int) list \<Rightarrow> 'cb started \<Rightarrow> 'cb started" where
  "Start c notifiee nsttl w =
     w\<lparr>counters := counters w + 1, notified := notified w @ notifiee,
       bootstraps := (if Discover c then bootstraps w + 1 else bootstraps w),
       environ := set_ttls nsttl (environ w)\<rparr>"

text \<open>The counter goroutine, over the sequence of its wake-ups; the end of the context is one that prints nothing.\<close>

datatype wake = CtxDone | TimerFired string

fun counter_loop :: "wake list \<Rightarrow> string list" where
  "counter_loop [] = []"
| "counter_loop (CtxDone # ws) = counter_loop ws"
| "counter_loop (TimerFired report # ws) = (''alibp2p-counter = '' @ report) # counter_loop ws"

end
