(* ===== verification/Pubsub.thy ===== *)
theory Pubsub
  imports Config
begin

text \<open>
  Topics of the service, \<open>impl.go\<close>: \<open>Publish\<close>, \<open>Subscribe\<close> and \<open>Unsubscribe\<close> over the map of subscribed topics.
  go-libp2p-pubsub is a parameter: a record of the operations the code calls, over a state, with the
  laws its documentation gives them. Every operation holds \<open>topicsMutex\<close> for its whole body, so an
  operation is one step of the service.
\<close>

subsection \<open>The parameter\<close>

record message =
  m_From :: string
  m_ReceivedFrom :: string
  m_Data :: "byte list"

record ('p, 't, 's) pubsub_ops =
  ps_Join :: "string \<Rightarrow> 'p \<Rightarrow> (string + 't) \<times> 'p"
  ps_RegisterTopicValidator :: "string \<Rightarrow> (message \<Rightarrow> bool) \<Rightarrow> int \<Rightarrow> bool \<Rightarrow> int \<Rightarrow> 'p \<Rightarrow> err \<times> 'p"
  ps_UnregisterTopicValidator :: "string \<Rightarrow> 'p \<Rightarrow> err \<times> 'p"
  t_Subscribe :: "'t \<Rightarrow> 'p \<Rightarrow> (string + 's) \<times> 'p"
  t_Publish :: "'t \<Rightarrow> byte list \<Rightarrow> 'p \<Rightarrow> err \<times> 'p"
  t_Close :: "'t \<Rightarrow> 'p \<Rightarrow> err \<times> 'p"
  s_Cancel :: "'s \<Rightarrow> 'p \<Rightarrow> 'p"

text \<open>What the library keeps: the topics with a handle, those with a validator, and the live subscriptions.\<close>

record ('p, 't, 's) pubsub_view =
  joined :: "'p \<Rightarrow> string set"
  validated :: "'p \<Rightarrow> string set"
  live :: "'p \<Rightarrow> 's set"
  topic_of :: "'t \<Rightarrow> string"
  sub_topic :: "'s \<Rightarrow> string"

definition same_view :: "('p, 't, 's) pubsub_view \<Rightarrow> 'p \<Rightarrow> 'p \<Rightarrow> bool" where
  "same_view V p q \<longleftrightarrow> joined V p = joined V q \<and> validated V p = validated V q \<and> live V p = live V q"

text \<open>
  A topic can be joined once until it is closed; a validator can be registered once per topic and only a
  registered one can be unregistered; a topic with a live subscription cannot be closed. \<open>Join\<close>,
  \<open>RegisterTopicValidator\<close> and \<open>Subscribe\<close> may fail for other reasons as well.
\<close>

definition join_law :: "('p, 't, 's) pubsub_ops \<Rightarrow> ('p, 't, 's) pubsub_view \<Rightarrow> bool" where
  "join_law P V \<longleftrightarrow> (\<forall>t p r q. ps_Join P t p = (r, q) \<longrightarrow>
     (case r of
        Inr h \<Rightarrow> t \<notin> joined V p \<and> topic_of V h = t \<and> joined V q = insert t (joined V p) \<and>
          validated V q = validated V p \<and> live V q = live V p
      | Inl e \<Rightarrow> same_view V p q))"

definition register_law :: "('p, 't, 's) pubsub_ops \<Rightarrow> ('p, 't, 's) pubsub_view \<Rightarrow> bool" where
  "register_law P V \<longleftrightarrow> (\<forall>t f n b d p r q. ps_RegisterTopicValidator P t f n b d p = (r, q) \<longrightarrow>
     (case r of
        None \<Rightarrow> t \<notin> validated V p \<and> validated V q = insert t (validated V p) \<and> joined V q = joined V p \<and> live V q = live V p
      | Some e \<Rightarrow> same_view V p q))"

definition unregister_law :: "('p, 't, 's) pubsub_ops \<Rightarrow> ('p, 't, 's) pubsub_view \<Rightarrow> bool" where
  "unregister_law P V \<longleftrightarrow> (\<forall>t p r q. ps_UnregisterTopicValidator P t p = (r, q) \<longrightarrow>
     (case r of
        None \<Rightarrow> t \<in> validated V p \<and> validated V q = validated V p - {t} \<and> joined V q = joined V p \<and> live V q = live V p
      | Some e \<Rightarrow> t \<notin> validated V p \<and> same_view V p q))"

definition sub_law :: "('p, 't, 's) pubsub_ops \<Rightarrow> ('p, 't, 's) pubsub_view \<Rightarrow> bool" where
  "sub_law P V \<longleftrightarrow> (\<forall>h p r q. t_Subscribe P h p = (r, q) \<longrightarrow>
     (case r of
        Inr s \<Rightarrow> s \<notin> live V p \<and> sub_topic V s = topic_of V h \<and> live V q = insert s (live V p) \<and>
          joined V q = joined V p \<and> validated V q = validated V p
      | Inl e \<Rightarrow> same_view V p q))"

definition close_law :: "('p, 't, 's) pubsub_ops \<Rightarrow> ('p, 't, 's) pubsub_view \<Rightarrow> bool" where
  "close_law P V \<longleftrightarrow> (\<forall>h p r q. t_Close P h p = (r, q) \<longrightarrow>
     (case r of
        None \<Rightarrow> (\<forall>s \<in> live V p. sub_topic V s \<noteq> topic_of V h) \<and> joined V q = joined V p - {topic_of V h} \<and>
          validated V q = validated V p \<and> live V q = live V p
      | Some e \<Rightarrow> (\<exists>s \<in> live V p. sub_topic V s = topic_of V h) \<and> same_view V p q))"

definition cancel_law :: "('p, 't, 's) pubsub_ops \<Rightarrow> ('p, 't, 's) pubsub_view \<Rightarrow> bool" where
  "cancel_law P V \<longleftrightarrow> (\<forall>s p. live V (s_Cancel P s p) = live V p - {s} \<and> joined V (s_Cancel P s p) = joined V p \<and>
     validated V (s_Cancel P s p) = validated V p)"

definition publish_law :: "('p, 't, 's) pubsub_ops \<Rightarrow> ('p, 't, 's) pubsub_view \<Rightarrow> bool" where
  "publish_law P V \<longleftrightarrow> (\<forall>h m p r q. t_Publish P h m p = (r, q) \<longrightarrow> same_view V p q)"

definition pubsub_laws :: "('p, 't, 's) pubsub_ops \<Rightarrow> ('p, 't, 's) pubsub_view \<Rightarrow> bool" where
  "pubsub_laws P V \<longleftrightarrow>
     join_law P V \<and> register_law P V \<and> unregister_law P V \<and> sub_law P V \<and> close_law P V \<and> cancel_law P V \<and> publish_law P V"

subsection \<open>The service's topics\<close>

text \<open>\<open>receivers\<close> are the goroutines started by \<open>Subscribe\<close>, each reading one subscription for a callback.\<close>

record ('p, 't, 's, 'cb) topic_srv =
  topics :: "string \<rightharpoonup> 't \<times> 's"
  pubsub :: 'p
  receivers :: "('s \<times> 'cb) list"

definition Publish :: "('p, 't, 's) pubsub_ops \<Rightarrow> string \<Rightarrow> byte list \<Rightarrow> ('p, 't, 's, 'cb) topic_srv \<Rightarrow>
    err \<times> ('p, 't, 's, 'cb) topic_srv" where
  "Publish P t msg srv =
     (case topics srv t of
        None \<Rightarrow> (Some (''The topic ['' @ t @ ''] notfound''), srv)
      | Some (topic, sub) \<Rightarrow>
          (case t_Publish P topic msg (pubsub srv) of (e, p) \<Rightarrow> (e, srv\<lparr>pubsub := p\<rparr>)))"

definition default_TopicConfig :: TopicConfig where
  "default_TopicConfig = \<lparr>throttle = 50, timeout = 2 * 1000000000, inline = False, valdator = None\<rparr>"

text \<open>The rest of \<open>Subscribe\<close> after the validator: subscribe, file the topic, start the receiver.\<close>

definition Subscribe_handle :: "('p, 't, 's) pubsub_ops \<Rightarrow> string \<Rightarrow> 'cb \<Rightarrow> 't \<Rightarrow> ('p, 't, 's, 'cb) topic_srv \<Rightarrow>
    err \<times> ('p, 't, 's, 'cb) topic_srv" where
  "Subscribe_handle P t callback topic srv =
     (case t_Subscribe P topic (pubsub srv) of
        (Inl e, p) \<Rightarrow> (Some e, srv\<lparr>pubsub := p\<rparr>)
      | (Inr sub, p) \<Rightarrow>
          (None, srv\<lparr>pubsub := p, topics := (topics srv)(t \<mapsto> (topic, sub)),
             receivers := receivers srv @ [(sub, callback)]\<rparr>))"

definition Subscribe :: "('p, 't, 's) pubsub_ops \<Rightarrow> string \<Rightarrow> 'cb \<Rightarrow> TopicConfig opt_fn option list \<Rightarrow>
    ('p, 't, 's, 'cb) topic_srv \<Rightarrow> err \<times> ('p, 't, 's, 'cb) topic_srv" where
  "Subscribe P t callback opts srv =
     (case TopicConfig_Apply opts default_TopicConfig of
        (Some e, _) \<Rightarrow> (Some e, srv)
      | (None, tc) \<Rightarrow>
          if topics srv t \<noteq> None then (Some (''The topic ['' @ t @ ''] already subscribe.''), srv)
          else
            (case ps_Join P t (pubsub srv) of
               (Inl e, p) \<Rightarrow> (Some e, srv\<lparr>pubsub := p\<rparr>)
             | (Inr topic, p) \<Rightarrow>
                 (case valdator tc of
                    None \<Rightarrow> Subscribe_handle P t callback topic (srv\<lparr>pubsub := p\<rparr>)
                  | Some v \<Rightarrow>
                      (case ps_RegisterTopicValidator P t (\<lambda>m. v (m_From m) (m_ReceivedFrom m) (m_Data m))
                              (throttle tc) (inline tc) (timeout tc) p of
                         (Some e, p2) \<Rightarrow> (Some e, srv\<lparr>pubsub := p2\<rparr>)
                       | (None, p2) \<Rightarrow> Subscribe_handle P t callback topic (srv\<lparr>pubsub := p2\<rparr>)))))"

text \<open>The receiver calls back for every message until \<open>Next\<close> fails.\<close>

fun receive_msgs :: "(string + message) list \<Rightarrow> (string \<times> string \<times> byte list) list" where
  "receive_msgs [] = []"
| "receive_msgs (Inl e # ms) = []"
| "receive_msgs (Inr m # ms) = (m_From m, m_ReceivedFrom m, m_Data m) # receive_msgs ms"

definition Unsubscribe :: "('p, 't, 's) pubsub_ops \<Rightarrow> string \<Rightarrow> ('p, 't, 's, 'cb) topic_srv \<Rightarrow>
    err \<times> ('p, 't, 's, 'cb) topic_srv" where
  "Unsubscribe P t srv =
     (case topics srv t of
        None \<Rightarrow> (Some (''The topic ['' @ t @ ''] notfound''), srv\<lparr>topics := (topics srv)(t := None)\<rparr>)
      | Some (topic, sub) \<Rightarrow>
          (case ps_UnregisterTopicValidator P t (pubsub srv) of
             (Some e, p) \<Rightarrow> (Some e, srv\<lparr>topics := (topics srv)(t := None), pubsub := p\<rparr>)
           | (None, p) \<Rightarrow>
               (case t_Close P topic (s_Cancel P sub p) of
                  (e, p2) \<Rightarrow> (e, srv\<lparr>topics := (topics srv)(t := None), pubsub := p2\<rparr>))))"

text \<open>Any call of the three operations by any goroutine.\<close>

inductive topic_step :: "('p, 't, 's) pubsub_ops \<Rightarrow> ('p, 't, 's, 'cb) topic_srv \<Rightarrow> ('p, 't, 's, 'cb) topic_srv \<Rightarrow> bool"
  for P :: "('p, 't, 's) pubsub_ops" where
  ts_publish: "Publish P t msg srv = (e, srv') \<Longrightarrow> topic_step P srv srv'"
| ts_subscribe: "Subscribe P t cb opts srv = (e, srv') \<Longrightarrow> topic_step P srv srv'"
| ts_unsubscribe: "Unsubscribe P t srv = (e, srv') \<Longrightarrow> topic_step P srv srv'"

end
