(* ===== verification/Init.thy ===== *)
theory Init
  imports Events Pubsub
begin

text \<open>
  Making a service, \<open>newService\<close> of \<open>impl.go\<close>: the package variables it sets, the node's key and its file
  (\<open>loadid\<close> of \<open>funcs.go\<close>), the options handed to libp2p, and the state the service starts in; then the
  lifetimes of advertised namespaces, \<open>FindProviders\<close> and \<open>Report\<close>.
\<close>

subsection \<open>The node's key\<close>

text \<open>
  The three numbers of a key; a number can be missing (nil) after parsing. \<open>hex_prefix\<close> is what
  \<open>hex.DecodeString\<close> returns beside its error, which \<open>loadid\<close> ignores: the bytes up to the first bad one.
\<close>

type_synonym key_numbers = "int option \<times> int option \<times> int option"

fun hex_prefix :: "string \<Rightarrow> byte list" where
  "hex_prefix (c # d # cs) =
     (case (hex_val c, hex_val d) of (Some h, Some l) \<Rightarrow> of_nat (16 * h + l) # hex_prefix cs | _ \<Rightarrow> [])"
| "hex_prefix _ = []"

text \<open>
  The parameters: the answers of the operating system, of the key generator and of \<open>encoding/json\<close> for
  arrays of three big integers. \<open>None\<close> is a failed read.
\<close>

record key_env =
  k_Join :: "string \<Rightarrow> string \<Rightarrow> string"
  k_MkdirAll :: "string \<Rightarrow> err"
  k_WriteFile :: "string \<Rightarrow> err"
  k_Generate :: "string + PrivateKey"
  k_Marshal :: "int \<times> int \<times> int \<Rightarrow> byte list"
  k_Unmarshal :: "byte list \<Rightarrow> string + key_numbers"

definition key_of :: "PrivateKey \<Rightarrow> key_numbers" where
  "key_of k = (Some (keyX k), Some (keyY k), Some (keyD k))"

text \<open>
  \<open>loadid\<close> over the files that can be read. A file that cannot be read, for whatever reason, is
  replaced; a failed generation leaves a nil key whose type assertion panics.
\<close>

definition loadid :: "key_env \<Rightarrow> string \<Rightarrow> (string \<rightharpoonup> string) \<Rightarrow> (key_numbers \<times> (string \<rightharpoonup> string)) outcome" where
  "loadid K homedir files =
     (let keypath = k_Join K homedir ''p2p.id'' in
      case files keypath of
        None \<Rightarrow>
          (case k_MkdirAll K homedir of
             Some e \<Rightarrow> Panic e
           | None \<Rightarrow>
               (case k_Generate K of
                  Inl e \<Rightarrow> Panic ''interface conversion: interface is nil''
                | Inr priv \<Rightarrow>
                    (let s0 = hex_EncodeToString (k_Marshal K (keyX priv, keyY priv, keyD priv)) in
                     case k_WriteFile K keypath of
                       Some e \<Rightarrow> Panic e
                     | None \<Rightarrow> Return (key_of priv, files(keypath \<mapsto> s0)))))
      | Some buff1 \<Rightarrow>
          (case k_Unmarshal K (hex_prefix buff1) of
             Inl e \<Rightarrow> Panic e
           | Inr arr1 \<Rightarrow> Return (arr1, files)))"

subsection \<open>newService\<close>

datatype log_level = LevelDebug | LevelInfo | LevelWarn | LevelError

definition log_level_of :: "int \<Rightarrow> log_level" where
  "log_level_of n =
     (if n = 5 then LevelDebug else if n = 3 \<or> n = 4 then LevelInfo
      else if n = 0 \<or> n = 1 \<or> n = 2 then LevelWarn else LevelError)"

text \<open>\<open>def_maxsize\<close> is a package variable, 30 MB at first.\<close>

definition def_maxsize0 :: int where
  "def_maxsize0 = 30 * 1024 * 1024"

definition set_maxsize :: "Config \<Rightarrow> int \<Rightarrow> int" where
  "set_maxsize c def_maxsize = (if MaxMsgSize c > 1024 * 1024 then MaxMsgSize c else def_maxsize)"

definition conn_limits :: "Config \<Rightarrow> 64 word \<times> 64 word" where
  "conn_limits c = (if ConnLow c = 0 then 50 else ConnLow c, if ConnHi c = 0 then 500 else ConnHi c)"

definition listen_addrs :: "Config \<Rightarrow> string list" where
  "listen_addrs c =
     (let list = [''/ip4/0.0.0.0/tcp/'' @ dec_int (uint (Port c))] in
      case MuxPort c of
        None \<Rightarrow> list
      | Some m \<Rightarrow>
          if signed_take_bit 63 m > 0
          then list @ [''/ip4/0.0.0.0/mux/'' @ dec_int m @ '':'' @ dec_int (uint (Port c))]
          else list)"

datatype dht_mode = ModeServer | ModeClient

text \<open>The options for libp2p, each with what the code computes for it.\<close>

datatype 'psk lib_option =
    OptPeerstore | OptBandwidthReporter | OptNATPortMap
  | OptListenAddrs "string list"
  | OptIdentity key_numbers
  | OptConnectionManager int int int
  | OptRouting bool dht_mode
  | OptAutoRelay
  | OptRelay bool
  | OptNATService
  | OptPrivateNetwork 'psk
  | OptMuxers "Muxer list"

definition lib_options :: "(string \<Rightarrow> string + 'psk) \<Rightarrow> Config \<Rightarrow> key_numbers \<Rightarrow> 'psk lib_option list" where
  "lib_options decode c priv =
     [OptPeerstore, OptBandwidthReporter, OptNATPortMap, OptListenAddrs (listen_addrs c), OptIdentity priv,
      OptConnectionManager (sint (fst (conn_limits c))) (sint (snd (conn_limits c))) (30 * 1000000000),
      OptRouting (EnableMetric c) (if DisableInbound c then ModeClient else ModeServer), OptAutoRelay] @
     (if Relay c then [OptRelay True, OptNATService] else [OptRelay False]) @
     (case ProtectorOpt decode c of Inr p \<Rightarrow> [OptPrivateNetwork p] | Inl _ \<Rightarrow> []) @
     [OptMuxers (MuxTransportOption (Loglevel c))]"

text \<open>The service as it starts, and the package variables after the call.\<close>

record ('c, 'h, 'p, 't, 's, 'cb, 'psk) new_service =
  ns_level :: log_level
  ns_maxsize :: int
  ns_files :: "string \<rightharpoonup> string"
  ns_options :: "'psk lib_option list"
  ns_key :: key_numbers
  ns_boot :: boot_srv
  ns_asc :: "('c, 'h) AStreamCache"
  ns_notifiee :: "'cb notify_bundle list"
  ns_topics :: "('p, 't, 's, 'cb) topic_srv"
  ns_nsttl :: "string \<rightharpoonup> int"

text \<open>The bootnodes of the configuration; one that cannot be used panics.\<close>

definition new_bootnodes :: "'m addr_pkg \<Rightarrow> Config \<Rightarrow> AddrInfo list option outcome" where
  "new_bootnodes ap c =
     (if Bootnodes c \<noteq> []
      then bind_outcome (convertPeers ap (Bootnodes c)) (\<lambda>r. case r of Inl e \<Rightarrow> Panic e | Inr ps \<Rightarrow> Return (Some ps))
      else Return None)"

text \<open>\<open>libp2p_New\<close> and \<open>NewGossipSub\<close> are libp2p's answers; an error of either panics.\<close>

definition newService :: "'c lru \<Rightarrow> key_env \<Rightarrow> 'm addr_pkg \<Rightarrow> (string \<Rightarrow> string + 'psk) \<Rightarrow>
    ('psk lib_option list \<Rightarrow> err) \<Rightarrow> string + 'p \<Rightarrow> Config \<Rightarrow> int \<Rightarrow> (string \<rightharpoonup> string) \<Rightarrow>
    ('c, 'h, 'p, 't, 's, 'cb, 'psk) new_service outcome" where
  "newService L K ap decode libp2p_New NewGossipSub c maxsize files =
     bind_outcome
       (case PrivKey c of Some k \<Rightarrow> Return (key_of k, files) | None \<Rightarrow> loadid K (Homedir c) files) (\<lambda>(priv, files1).
     (case libp2p_New (lib_options decode c priv) of
        Some e \<Rightarrow> Panic e
      | None \<Rightarrow>
          (case NewGossipSub of
             Inl e \<Rightarrow> Panic e
           | Inr ps \<Rightarrow>
               bind_outcome (new_bootnodes ap c) (\<lambda>bn.
                 Return \<lparr>ns_level = log_level_of (Loglevel c), ns_maxsize = set_maxsize c maxsize,
                   ns_files = files1, ns_options = lib_options decode c priv, ns_key = priv,
                   ns_boot = \<lparr>bootnodes = bn, clientProtocols = ClientProtocols c\<rparr>,
                   ns_asc = NewAStreamCatch L (Some []), ns_notifiee = new_notifiee c,
                   ns_topics = \<lparr>topics = (\<lambda>t. None), pubsub = ps, receivers = []\<rparr>,
                   ns_nsttl = (\<lambda>ns. None)\<rparr>))))"

text \<open>\<open>New\<close> returns the error of the options and makes the service otherwise.\<close>

definition New :: "'c lru \<Rightarrow> key_env \<Rightarrow> 'm addr_pkg \<Rightarrow> (string \<Rightarrow> string + 'psk) \<Rightarrow>
    ('psk lib_option list \<Rightarrow> err) \<Rightarrow> string + 'p \<Rightarrow> Config opt_fn option list \<Rightarrow> int \<Rightarrow> (string \<rightharpoonup> string) \<Rightarrow>
    (string + ('c, 'h, 'p, 't, 's, 'cb, 'psk) new_service) outcome" where
  "New L K ap decode libp2p_New NewGossipSub opts maxsize files =
     (case New_config opts of
        (Some e, c) \<Rightarrow> Return (Inl e)
      | (None, c) \<Rightarrow> map_outcome Inr (newService L K ap decode libp2p_New NewGossipSub c maxsize files))"

subsection \<open>Sizes of messages\<close>

text \<open>The size that \<open>FromReader\<close> hands to amino: its optional argument or the package's.\<close>

definition reader_maxsize :: "int \<Rightarrow> int list \<Rightarrow> int" where
  "reader_maxsize def_maxsize maxSize = (case maxSize of [] \<Rightarrow> def_maxsize | m # _ \<Rightarrow> m)"

subsection \<open>Namespaces\<close>

text \<open>\<open>time.Duration(86400)\<close>: a duration counts nanoseconds.\<close>

definition def_nsttl :: int where
  "def_nsttl = 86400"

definition getAdvertiseTTL :: "(string \<rightharpoonup> int) \<Rightarrow> string \<Rightarrow> int" where
  "getAdvertiseTTL nsttl ns =
     (let ttl = (case nsttl ns of None \<Rightarrow> 0 | Some t \<Rightarrow> t) in if ttl > 0 then ttl else def_nsttl)"

text \<open>The multihash of the namespace's SHA-256: its code, its length and the digest.\<close>

definition ns_multihash :: "string \<Rightarrow> byte list" where
  "ns_multihash ns = [0x12, 0x20] @ sha256_Sum (bytes_of ns)"

definition SetAdvertiseTTL :: "string \<Rightarrow> int \<Rightarrow> (string \<rightharpoonup> int) \<times> (string \<rightharpoonup> string) \<Rightarrow>
    (string \<rightharpoonup> int) \<times> (string \<rightharpoonup> string)" where
  "SetAdvertiseTTL ns ttl s =
     (case s of (nsttl, vars) \<Rightarrow>
        (nsttl(ns \<mapsto> ttl), vars(hex_EncodeToString (ns_multihash ns) \<mapsto> dec_int ttl)))"

text \<open>\<open>Advertise\<close> hands the lifetime to the discovery package, whose effect is \<open>advertise\<close>.\<close>

definition Advertise :: "(string \<Rightarrow> int \<Rightarrow> 'r \<Rightarrow> 'r) \<Rightarrow> (string \<rightharpoonup> int) \<Rightarrow> string \<Rightarrow> 'r \<Rightarrow> 'r" where
  "Advertise advertise nsttl ns r = advertise ns (getAdvertiseTTL nsttl ns) r"

lemma getAdvertiseTTL_pos: "0 < getAdvertiseTTL nsttl ns"
  by (simp add: getAdvertiseTTL_def Let_def def_nsttl_def)

lemma getAdvertiseTTL_Set:
  "getAdvertiseTTL (fst (SetAdvertiseTTL ns ttl s)) ns' =
     (if ns' = ns then if ttl > 0 then ttl else def_nsttl else getAdvertiseTTL (fst s) ns')"
  by (simp add: getAdvertiseTTL_def SetAdvertiseTTL_def split: prod.split)

text \<open>The routing table is read off a router of the one type that has it, the DHT's.\<close>

datatype router = IpfsDHT "string list" | OtherRouter

definition RoutingTable :: "router \<Rightarrow> string + string list" where
  "RoutingTable r = (case r of IpfsDHT peers \<Rightarrow> Inr peers | OtherRouter \<Rightarrow> Inl ''router type error'')"

text \<open>\<open>FindPeers\<close> answers an error or the peers of its channel, in order.\<close>

fun provider_loop :: "string list \<Rightarrow> string list \<times> err \<Rightarrow> string list \<times> err" where
  "provider_loop [] r = r"
| "provider_loop (a # as) (ret, e) = provider_loop as (ret @ [a], None)"

definition FindProviders :: "string + string list \<Rightarrow> string list \<times> err" where
  "FindProviders FindPeers =
     (case FindPeers of Inl e \<Rightarrow> ([], Some e) | Inr as \<Rightarrow> provider_loop as ([], Some ''notfound''))"

subsection \<open>Report\<close>

text \<open>Statistics of libp2p's metrics; \<open>f2\<close> is the rendering of a rate by \<open>%.2f\<close>.\<close>

record 'f Stats =
  TotalIn :: int
  TotalOut :: int
  RateIn :: 'f
  RateOut :: 'f

definition quoted :: "string \<Rightarrow> string" where
  "quoted s = CHR 0x22 # s @ [CHR 0x22]"

definition stats_json :: "('f \<Rightarrow> string) \<Rightarrow> string \<Rightarrow> string \<Rightarrow> 'f Stats \<Rightarrow> string" where
  "stats_json f2 i ou s =
     ''{'' @ quoted ''total-in'' @ '':'' @ quoted (dec_int (TotalIn s)) @ '','' @
     quoted ''total-out'' @ '':'' @ quoted (dec_int (TotalOut s)) @ '','' @
     quoted i @ '':'' @ quoted (f2 (RateIn s)) @ '','' @ quoted ou @ '':'' @ quoted (f2 (RateOut s)) @ ''}''"

definition report_detail :: "('f \<Rightarrow> string) \<Rightarrow> 'f Stats \<Rightarrow> 'f Stats \<Rightarrow> string" where
  "report_detail f2 stat stat3 =
     ''{'' @ quoted ''detail'' @ '':{'' @ quoted ''bw'' @ '':'' @ stats_json f2 ''rate-in'' ''rate-out'' stat @ '','' @
     quoted ''msg'' @ '':'' @ stats_json f2 ''avg-in'' ''avg-out'' stat3 @ ''}}''"

text \<open>\<open>Inl\<close> is the early return of a peer id that cannot be parsed: its error's text is the whole report.\<close>

fun report_loop :: "string peer_pkg \<Rightarrow> ('f \<Rightarrow> string) \<Rightarrow> (string \<Rightarrow> 'f Stats \<times> 'f Stats) \<Rightarrow> string list \<Rightarrow> string \<Rightarrow>
    string + string" where
  "report_loop pp f2 peer_stats [] rs = Inr rs"
| "report_loop pp f2 peer_stats (peerid # ps) rs =
     (case peer_Decode pp peerid of
        Inl e \<Rightarrow> Inl e
      | Inr i \<Rightarrow>
          (case peer_stats i of (stat, stat3) \<Rightarrow>
             report_loop pp f2 peer_stats ps (rs @ quoted peerid @ '':'' @ report_detail f2 stat stat3 @ '','')))"

text \<open>\<open>None\<close> is the nil slice, a call without arguments.\<close>

definition Report :: "string peer_pkg \<Rightarrow> ('f \<Rightarrow> string) \<Rightarrow> 'f Stats \<times> 'f Stats \<Rightarrow> (string \<Rightarrow> 'f Stats \<times> 'f Stats) \<Rightarrow>
    string \<Rightarrow> string list option \<Rightarrow> byte list outcome" where
  "Report pp f2 totals peer_stats now peerids =
     (let head = ''{'' @ quoted ''time'' @ '':'' @ quoted now @ '','' in
      case peerids of
        None \<Rightarrow> bind_outcome (slice_from (report_detail f2 (fst totals) (snd totals)) 1) (\<lambda>s. Return (bytes_of (head @ s)))
      | Some ps \<Rightarrow>
          (case report_loop pp f2 peer_stats ps [] of
             Inl e \<Rightarrow> Return (bytes_of e)
           | Inr rs \<Rightarrow>
               if rs = [] then Panic ''slice bounds out of range''
               else Return (bytes_of (head @ butlast rs @ ''}''))))"

end
