(* ===== verification/Wire.thy ===== *)
theory Wire
  imports EndToEnd Init
begin

text \<open>
  Frames as bytes on a stream: \<open>FromBytes\<close>, \<open>FromReader\<close>, \<open>ToBytes\<close>, \<open>ToWriter\<close> and their \<open>Must\<close> variants of
  \<open>funcs.go\<close>, and the request loop fed with what a client wrote. The encoding is amino's, a parameter with
  the laws of a length-prefixed encoding: what is written can be read back, the bytes after it are left
  alone, and an object above the reader's limit is refused.
\<close>

subsection \<open>The calls of amino\<close>

record amino =
  am_Marshal :: "RawData \<Rightarrow> string + byte list"
  am_Unmarshal :: "byte list \<Rightarrow> RawData \<Rightarrow> err \<times> RawData"
  am_MarshalWriter :: "byte list \<Rightarrow> RawData \<Rightarrow> (int \<times> err) \<times> byte list"
  am_UnmarshalReader :: "byte list \<Rightarrow> RawData \<Rightarrow> int \<Rightarrow> (int \<times> err) \<times> RawData \<times> byte list"
  am_MustMarshal :: "RawData \<Rightarrow> byte list outcome"
  am_MustUnmarshal :: "byte list \<Rightarrow> RawData \<Rightarrow> RawData outcome"

text \<open>
  A pointer argument is the value it points to, returned updated; a stream to read from is its pending bytes, one
  to write to the bytes written so far. \<open>def_maxsize\<close> is the package variable that \<open>newService\<close> sets.
\<close>

definition FromBytes :: "amino \<Rightarrow> byte list \<Rightarrow> RawData \<Rightarrow> err \<times> RawData" where
  "FromBytes A data ptr = am_Unmarshal A data ptr"

definition FromReader :: "amino \<Rightarrow> int \<Rightarrow> byte list \<Rightarrow> RawData \<Rightarrow> int list \<Rightarrow> (int \<times> err) \<times> RawData \<times> byte list" where
  "FromReader A def_maxsize r ptr maxSize = am_UnmarshalReader A r ptr (reader_maxsize def_maxsize maxSize)"

definition ToBytes :: "amino \<Rightarrow> RawData \<Rightarrow> string + byte list" where
  "ToBytes A ptr = am_Marshal A ptr"

definition ToWriter_amino :: "amino \<Rightarrow> byte list \<Rightarrow> RawData \<Rightarrow> (int \<times> err) \<times> byte list" where
  "ToWriter_amino A w ptr = am_MarshalWriter A w ptr"

definition MustFromBytes :: "amino \<Rightarrow> byte list \<Rightarrow> RawData \<Rightarrow> RawData outcome" where
  "MustFromBytes A data ptr = am_MustUnmarshal A data ptr"

definition MustToBytes :: "amino \<Rightarrow> RawData \<Rightarrow> byte list outcome" where
  "MustToBytes A ptr = am_MustMarshal A ptr"

text \<open>\<open>GetBuf\<close> and \<open>PutBuf\<close> hand on to a pool of buffers, whose state is \<open>'s\<close>.\<close>

record 's buffer_pool =
  bp_Get :: "int \<Rightarrow> 's \<Rightarrow> byte list \<times> 's"
  bp_Put :: "byte list \<Rightarrow> 's \<Rightarrow> 's"

definition GetBuf :: "'s buffer_pool \<Rightarrow> int \<Rightarrow> 's \<Rightarrow> byte list \<times> 's" where
  "GetBuf B n s = bp_Get B n s"

definition PutBuf :: "'s buffer_pool \<Rightarrow> byte list \<Rightarrow> 's \<Rightarrow> 's" where
  "PutBuf B b s = bp_Put B b s"

text \<open>The laws: \<open>enc\<close> is the encoding and \<open>sz\<close> the size that the limit is compared with.\<close>

definition amino_laws :: "amino \<Rightarrow> (RawData \<Rightarrow> byte list) \<Rightarrow> (RawData \<Rightarrow> int) \<Rightarrow> bool" where
  "amino_laws A enc sz \<longleftrightarrow>
     (\<forall>w v. am_MarshalWriter A w v = ((int (length (enc v)), None), w @ enc v)) \<and>
     (\<forall>v rest p mx. 0 < mx \<longrightarrow>
        (if sz v \<le> mx then am_UnmarshalReader A (enc v @ rest) p mx = ((int (length (enc v)), None), v, rest)
         else \<exists>n e rest'. am_UnmarshalReader A (enc v @ rest) p mx = ((n, Some e), p, rest')))"

subsection \<open>Frames on a stream\<close>

text \<open>Writing frames one after the other; reading a number of them until one fails.\<close>

fun write_frames :: "amino \<Rightarrow> byte list \<Rightarrow> RawData list \<Rightarrow> byte list" where
  "write_frames A w [] = w"
| "write_frames A w (v # vs) = write_frames A (snd (ToWriter_amino A w v)) vs"

fun read_frames :: "amino \<Rightarrow> int \<Rightarrow> nat \<Rightarrow> byte list \<Rightarrow> (RawData \<times> err) list" where
  "read_frames A mx 0 r = []"
| "read_frames A mx (Suc n) r =
     (case FromReader A mx r zero_RawData [] of
        ((c, e), v, rest) \<Rightarrow> (v, e) # (if e = None then read_frames A mx n rest else []))"

text \<open>The turns of the request loop on a stream whose writes succeed.\<close>

definition wire_turns :: "amino \<Rightarrow> int \<Rightarrow> nat \<Rightarrow> byte list \<Rightarrow> turn list" where
  "wire_turns A mx n r = map (\<lambda>(v, e). \<lparr>t_req = v, t_read = e, t_write = None\<rparr>) (read_frames A mx n r)"

lemma write_frames_eq:
  assumes "amino_laws A enc sz"
  shows "write_frames A w vs = w @ concat (map enc vs)"
  using assms by (induction vs arbitrary: w) (simp_all add: ToWriter_amino_def amino_laws_def)

lemma FromReader_laws:
  assumes "amino_laws A enc sz" and "0 < mx"
  shows "sz v \<le> mx \<Longrightarrow> FromReader A mx (enc v @ rest) p [] = ((int (length (enc v)), None), v, rest)"
    and "mx < sz v \<Longrightarrow> \<exists>n e rest'. FromReader A mx (enc v @ rest) p [] = ((n, Some e), p, rest')"
proof -
  have L: "if sz v \<le> mx then am_UnmarshalReader A (enc v @ rest) p mx = ((int (length (enc v)), None), v, rest)
      else \<exists>n e rest'. am_UnmarshalReader A (enc v @ rest) p mx = ((n, Some e), p, rest')"
    using assms unfolding amino_laws_def by blast
  show "sz v \<le> mx \<Longrightarrow> FromReader A mx (enc v @ rest) p [] = ((int (length (enc v)), None), v, rest)"
    and "mx < sz v \<Longrightarrow> \<exists>n e rest'. FromReader A mx (enc v @ rest) p [] = ((n, Some e), p, rest')"
    using L by (simp_all add: FromReader_def reader_maxsize_def)
qed

lemma read_frames_ok:
  assumes laws: "amino_laws A enc sz" and mx: "0 < mx"
  shows "\<forall>v \<in> set vs. sz v \<le> mx \<Longrightarrow> read_frames A mx (length vs + n) (concat (map enc vs) @ rest) =
    map (\<lambda>v. (v, None)) vs @ read_frames A mx n rest"
proof (induction vs)
  case (Cons v vs)
  then show ?case by (simp add: FromReader_laws(1) [OF laws mx])
qed simp

lemma read_frame_refused:
  assumes laws: "amino_laws A enc sz" and mx: "0 < mx" and "mx < sz v"
  shows "\<exists>e. read_frames A mx (Suc n) (enc v @ rest) = [(zero_RawData, Some e)]"
proof -
  obtain c e rest' where "FromReader A mx (enc v @ rest) zero_RawData [] = ((c, Some e), zero_RawData, rest')"
    using FromReader_laws(2) [OF laws mx assms(3)] by blast
  then show ?thesis by simp
qed

text \<open>
  Frames cross a stream in order. Frames that \<open>ToWriter\<close> wrote one after the other are what
  \<open>FromReader\<close> reads on the other side, up to the first that is above the reader's limit; that
  one is refused with an error, and nothing after it is read.
\<close>

lemma frames_cross:
  assumes "amino_laws A enc sz" and "0 < mx"
  shows "\<exists>e. read_frames A mx (length vs) (write_frames A [] vs) =
    (let ok = takeWhile (\<lambda>v. sz v \<le> mx) vs
     in map (\<lambda>v. (v, None)) ok @ (if ok = vs then [] else [(zero_RawData, Some e)]))"
proof -
  define ok bad where "ok = takeWhile (\<lambda>v. sz v \<le> mx) vs" and "bad = dropWhile (\<lambda>v. sz v \<le> mx) vs"
  have vs: "vs = ok @ bad" by (simp add: ok_def bad_def)
  have small: "\<forall>v \<in> set ok. sz v \<le> mx" by (auto simp: ok_def dest: set_takeWhileD)
  have "read_frames A mx (length vs) (write_frames A [] vs) =
      map (\<lambda>v. (v, None)) ok @ read_frames A mx (length bad) (concat (map enc bad))"
    using read_frames_ok [OF assms small, of "length bad" "concat (map enc bad)"]
    by (simp add: write_frames_eq [OF assms(1)] vs)
  moreover have "\<exists>e. read_frames A mx (length bad) (concat (map enc bad)) = (if bad = [] then [] else [(zero_RawData, Some e)])"
  proof (cases bad)
    case (Cons v vs')
    then have "mx < sz v"
      using hd_dropWhile [of "\<lambda>v. sz v \<le> mx" vs] by (simp add: bad_def)
    then show ?thesis using read_frame_refused [OF assms, of v "length vs'"] Cons by simp
  qed simp
  moreover have "ok = vs \<longleftrightarrow> bad = []" by (simp add: vs)
  ultimately show ?thesis unfolding ok_def [symmetric] by (auto simp: Let_def)
qed

subsection \<open>The request loop on a stream of bytes\<close>

lemma handle_loop_append:
  "handle_loop E s pk ts st = Return (False, st') \<Longrightarrow> handle_loop E s pk (ts @ us) st = handle_loop E s pk us st'"
proof (induction ts arbitrary: st)
  case (Cons t ts)
  then obtain x where x: "handle_turn E s pk t st = Return x"
      "(case x of Stop y \<Rightarrow> Return (True, y) | Next y \<Rightarrow> handle_loop E s pk ts y) = Return (False, st')"
    by (auto simp: bind_outcome_Return_iff)
  then show ?case using Cons.IH by (cases x) auto
qed simp

lemma zero_RawData_rErr [simp]: "rErr zero_RawData = []"
  by (simp add: zero_RawData_def)

text \<open>
  C7: the request loop on a stream to which a client wrote its requests, with the reader's limit. The requests up to
  the first one above the limit are answered as the reference server does. That one is refused: the
  loop sends an error frame without an id and closes the stream, and what was written after it is not
  looked at. A stream whose requests are all within the limit stays open.
\<close>

theorem requests_on_the_wire:
  assumes "amino_laws A enc sz" and "0 < mx" and "\<forall>v \<in> set reqs. rErr v = []"
    and "reg p (s_Protocol s) = Some h" and "implements E s k h f"
    and "lru_laws C ct" and "memo_ok ct (extracted pp) kc"
    and "ID_ExtractPublicKey pp (s_RemotePeer s) = Inr (Secp256k1PublicKey k)"
  shows "\<exists>st kc' e. let ok = takeWhile (\<lambda>v. sz v \<le> mx) reqs in
    doHandleStream C pp E s (wire_turns A mx (length reqs) (write_frames A [] reqs)) kc w p = Return (ok \<noteq> reqs, st, kc') \<and>
    sent st = fst (serve f ok [] w) @ (if ok = reqs then [] else [error_frame zero_RawData e]) \<and>
    fullClosed (cache st) = fullClosed p @ (if ok = reqs then [] else [s])"
proof -
  define ok where "ok = takeWhile (\<lambda>v. sz v \<le> mx) reqs"
  let ?pk = "Some (Secp256k1PublicKey k)" and ?turn = "\<lambda>v. \<lparr>t_req = v, t_read = None, t_write = None\<rparr>"
  let ?st0 = "\<lparr>rw = \<lparr>reader = [], writer = []\<rparr>, world = w, cache = p, sent = []\<rparr>"
  obtain e where "read_frames A mx (length reqs) (write_frames A [] reqs) =
      map (\<lambda>v. (v, None)) ok @ (if ok = reqs then [] else [(zero_RawData, Some e)])"
    using frames_cross [OF assms(1,2), of reqs] unfolding ok_def Let_def by blast
  then have turns: "wire_turns A mx (length reqs) (write_frames A [] reqs) =
      map ?turn ok @ (if ok = reqs then [] else [\<lparr>t_req = zero_RawData, t_read = Some e, t_write = None\<rparr>])"
    by (simp add: wire_turns_def)
  have "fst (id2pubkey_nil C pp (s_RemotePeer s) kc) = ?pk"
    using id2pubkey_nil_spec [OF assms(6,7), of "s_RemotePeer s"] assms(8) by (simp add: extracted_def)
  then obtain kc' where key: "id2pubkey_nil C pp (s_RemotePeer s) kc = (?pk, kc')"
    by (metis prod.collapse)
  have clean: "\<forall>t \<in> set (map ?turn ok). clean_turn t"
    using assms(3) by (auto simp: clean_turn_def ok_def dest: set_takeWhileD)
  obtain st1 where loop: "handle_loop E s ?pk (map ?turn ok) ?st0 = Return (False, st1)" and
      sent: "sent st1 = fst (serve f ok [] w)"
    using handle_loop_serve [OF assms(5) clean, of ?st0] assms(4)
    by (auto simp: apfst_def map_prod_def comp_def split: prod.splits) (metis fst_conv)
  have closed: "fullClosed (cache st1) = fullClosed p"
    using handle_loop_frames [OF loop] by auto
  show ?thesis
  proof (cases "ok = reqs")
    case True
    then show ?thesis
      using loop sent closed key unfolding ok_def [symmetric] turns Let_def
      by (intro exI [of _ st1] exI [of _ kc']) (simp add: doHandleStream_def)
  next
    case False
    let ?st2 = "st1\<lparr>sent := sent st1 @ [error_frame zero_RawData e]\<rparr>"
    have "handle_loop E s ?pk (map ?turn ok @ [\<lparr>t_req = zero_RawData, t_read = Some e, t_write = None\<rparr>]) ?st0 =
        Return (True, ?st2)"
      unfolding handle_loop_append [OF loop] by (simp add: handle_turn_eq)
    then show ?thesis
      using False sent closed key unfolding ok_def [symmetric] turns Let_def
      by (intro exI [of _ "?st2\<lparr>cache := fullClose (Some s) (cache ?st2)\<rparr>"] exI [of _ kc'] exI [of _ e])
        (simp add: doHandleStream_def fullClose_def)
  qed
qed

text \<open>A concrete encoding: three byte strings, each after its length in unary.\<close>

definition ex_pre :: "byte list \<Rightarrow> byte list" where
  "ex_pre xs = replicate (length xs) 1 @ 0 # xs"

definition ex_unpre :: "byte list \<Rightarrow> byte list \<times> byte list" where
  "ex_unpre r = (let n = length (takeWhile (\<lambda>b. b = 1) r) in (take n (drop (Suc n) r), drop (Suc n + n) r))"

definition ex_enc :: "RawData \<Rightarrow> byte list" where
  "ex_enc v = ex_pre (rId v) @ ex_pre (bytes_of (rErr v)) @ ex_pre (rData v)"

definition ex_amino :: amino where
  "ex_amino = \<lparr>am_Marshal = (\<lambda>v. Inr (ex_enc v)), am_Unmarshal = (\<lambda>r p. (None, p)),
     am_MarshalWriter = (\<lambda>w v. ((int (length (ex_enc v)), None), w @ ex_enc v)),
     am_UnmarshalReader = (\<lambda>r p mx.
       let (i, r1) = ex_unpre r; (e, r2) = ex_unpre r1; (d, r3) = ex_unpre r2 in
       if int (length d) \<le> mx then ((int (length r) - int (length r3), None), \<lparr>rId = i, rErr = string_of e, rData = d\<rparr>, r3)
       else ((0, Some ''read overflow''), p, r3)),
     am_MustMarshal = (\<lambda>v. Return (ex_enc v)), am_MustUnmarshal = (\<lambda>r p. Return p)\<rparr>"

lemma ex_unpre_pre [simp]: "ex_unpre (ex_pre xs @ rest) = (xs, rest)"
proof -
  have "takeWhile (\<lambda>b. b = 1) (replicate n 1 @ (0 :: byte) # ys) = replicate n 1" for n ys
    by (induction n) auto
  then show ?thesis by (simp add: ex_unpre_def ex_pre_def)
qed

lemma ex_amino_laws: "amino_laws ex_amino ex_enc (\<lambda>v. int (length (rData v)))"
  by (auto simp: amino_laws_def ex_amino_def ex_enc_def)

definition ex_reqs :: "RawData list" where
  "ex_reqs = [\<lparr>rId = [7], rErr = [], rData = [1]\<rparr>, \<lparr>rId = [8], rErr = [], rData = [1, 2, 3]\<rparr>,
     \<lparr>rId = [9], rErr = [], rData = [2]\<rparr>]"

theorem requests_on_the_wire_witness:
  "\<exists>st kc. doHandleStream fifo_lru ex_peer_pkg ex_env ex_stream
      (wire_turns ex_amino 2 (length ex_reqs) (write_frames ex_amino [] ex_reqs))
      (lru_New fifo_lru 10) 0 (ex_cache (StreamHandlerWithProtocol 0)) = Return (True, st, kc) \<and>
    map rData (sent st) = [[1], []]"
proof -
  have E: "implements ex_env ex_stream \<lparr>pubX = 3, pubY = 5\<rparr> (StreamHandlerWithProtocol 0) (\<lambda>d w. ([], d, Suc w))"
    by (simp add: implements_def asc_callHandler_def pubkeyToEcdsa_def ex_env_def)
  have reg: "reg (ex_cache (StreamHandlerWithProtocol 0)) (s_Protocol ex_stream) = Some (StreamHandlerWithProtocol 0)"
    by (simp add: ex_cache_def ex_stream_def)
  have key: "ID_ExtractPublicKey ex_peer_pkg (s_RemotePeer ex_stream) = Inr (Secp256k1PublicKey \<lparr>pubX = 3, pubY = 5\<rparr>)"
    by (simp add: ex_peer_pkg_def ecdsaToPubkey_def)
  have ok: "takeWhile (\<lambda>v. int (length (rData v)) \<le> 2) ex_reqs = [\<lparr>rId = [7], rErr = [], rData = [1]\<rparr>]"
    "\<forall>v \<in> set ex_reqs. rErr v = []" "[\<lparr>rId = [7], rErr = [], rData = [1]\<rparr>] \<noteq> ex_reqs"
    by (simp_all add: ex_reqs_def)
  show ?thesis
    using requests_on_the_wire [OF ex_amino_laws _ ok(2) reg E fifo_lru_laws memo_ok_New [OF fifo_lru_laws, where n = 10] key,
        where mx = 2 and w = 0] ok(3)
    unfolding ok(1) Let_def by (auto simp: error_frame_def)
qed

end
