(* ===== verification/EventsSpec.thy ===== *)
theory EventsSpec
  imports Events MessagingProps
begin

text \<open>
  The events end to end: which connections a callback is called for and how long the wait for the
  identification takes, and what a disconnection leaves in the stream cache.
\<close>

subsection \<open>The key of a connection\<close>

lemma conn_key_secp:
  assumes "lru_laws C ct" and "memo_ok ct (extracted pp) kc"
    and "extracted pp (c_RemotePeer c) = Some (Secp256k1PublicKey k)"
  shows "\<exists>kc1. conn_key C pp c kc = Return (k, kc1) \<and> memo_ok ct (extracted pp) kc1"
  using id2pubkey_nil_spec [OF assms(1,2), of "c_RemotePeer c"] assms(3)
  by (auto simp: conn_key_def pubkeyToEcdsa_def split: prod.split)

lemma conn_key_panic:
  assumes "lru_laws C ct" and "memo_ok ct (extracted pp) kc"
    and "\<forall>k. extracted pp (c_RemotePeer c) \<noteq> Some (Secp256k1PublicKey k)"
  shows "\<exists>m. conn_key C pp c kc = Panic m"
  using id2pubkey_nil_spec [OF assms(1,2), of "c_RemotePeer c"] assms(3)
  by (cases "extracted pp (c_RemotePeer c)"; cases "the (extracted pp (c_RemotePeer c))")
    (auto simp: conn_key_def pubkeyToEcdsa_def split: prod.split)

subsection \<open>The wait for the identification\<close>

definition identified :: "string peer_pkg \<Rightarrow> (nat \<Rightarrow> string \<Rightarrow> string \<Rightarrow> string + 'v) \<Rightarrow> string \<Rightarrow> nat \<Rightarrow> bool" where
  "identified pp pstore p i \<longleftrightarrow>
     \<not> isl (GetPeerMeta pp (pstore i) p ''ProtocolVersion'') \<and> \<not> isl (GetPeerMeta pp (pstore i) p ''AgentVersion'')"

lemma event_poll_step:
  "i < 20 \<Longrightarrow> event_poll pp pstore p i =
     (if identified pp pstore p i then (True, 0)
      else (fst (event_poll pp pstore p (Suc i)), Suc (snd (event_poll pp pstore p (Suc i)))))"
  by (simp add: event_poll.simps [of pp pstore p i] identified_def Let_def split: prod.split)

lemma event_poll_end: "20 \<le> i \<Longrightarrow> event_poll pp pstore p i = (False, 0)"
  by (simp add: event_poll.simps [of pp pstore p i])

lemma event_poll_spec:
  assumes "i + n = 20" and "event_poll pp pstore p i = (called, w)"
  shows "w \<le> n \<and> (called \<longleftrightarrow> (\<exists>j. i \<le> j \<and> j < 20 \<and> identified pp pstore p j)) \<and>
    (called \<longrightarrow> identified pp pstore p (i + w) \<and> (\<forall>j. i \<le> j \<and> j < i + w \<longrightarrow> \<not> identified pp pstore p j))"
  using assms
proof (induction n arbitrary: i w)
  case 0
  then show ?case by (auto simp: event_poll_end)
next
  case (Suc n)
  have i: "i < 20" using Suc.prems(1) by simp
  show ?case
  proof (cases "identified pp pstore p i")
    case True
    then have "called" "w = 0" using Suc.prems(2) i by (simp_all add: event_poll_step)
    with True i show ?thesis by auto
  next
    case False
    then obtain v where v: "event_poll pp pstore p (Suc i) = (called, v)" "w = Suc v"
      using Suc.prems(2) i by (cases "event_poll pp pstore p (Suc i)") (simp add: event_poll_step)
    have from_i: "i \<le> j \<and> identified pp pstore p j \<longleftrightarrow> Suc i \<le> j \<and> identified pp pstore p j" for j
      using False by (cases "i = j") auto
    have less: "i \<le> j \<and> j < i + w \<longrightarrow> \<not> identified pp pstore p j"
      if "\<forall>j. Suc i \<le> j \<and> j < Suc i + v \<longrightarrow> \<not> identified pp pstore p j" for j
      using that from_i [of j] v(2) by auto
    have "Suc i + n = 20" using Suc.prems(1) by simp
    from Suc.IH [OF this v(1)] show ?thesis using v(2) from_i less by (metis Suc_le_mono add_Suc add_Suc_right)
  qed
qed

text \<open>
  C23: the event of a connection with a secp256k1 key: the callback is called exactly when the connection
  is of the wanted type and one of twenty looks at the peer store finds both versions of the peer; it
  is called after the first such look, and the wait is never longer than twenty timers.
\<close>

theorem connected_event_once:
  assumes "lru_laws C ct" and "memo_ok ct (extracted pp) kc"
    and "extracted pp (c_RemotePeer c) = Some (Secp256k1PublicKey k)"
  shows "\<exists>r waits kc1. connected_event_poll C pp enc conns t c pstore kc = Return (r, waits, kc1) \<and> waits \<le> 20 \<and>
    (r \<noteq> None \<longleftrightarrow> conn_passes enc conns t c \<and> (\<exists>i<20. identified pp pstore (c_RemotePeer c) i)) \<and>
    (r \<noteq> None \<longrightarrow> r = Some (conn_in c, conn_session c, k) \<and> identified pp pstore (c_RemotePeer c) waits \<and>
       (\<forall>i<waits. \<not> identified pp pstore (c_RemotePeer c) i))"
proof (cases "conn_passes enc conns t c")
  case True
  obtain kc1 where key: "conn_key C pp c kc = Return (k, kc1)" using conn_key_secp [OF assms] by blast
  obtain called w where e: "event_poll pp pstore (c_RemotePeer c) 0 = (called, w)" by fastforce
  have r: "connected_event_poll C pp enc conns t c pstore kc =
      Return (if called then Some (conn_in c, conn_session c, k) else None, w, kc1)"
    using True key e by (simp add: connected_event_poll_def)
  have "w \<le> 20 \<and> (called \<longleftrightarrow> (\<exists>j<20. identified pp pstore (c_RemotePeer c) j)) \<and>
    (called \<longrightarrow> identified pp pstore (c_RemotePeer c) w \<and> (\<forall>j<w. \<not> identified pp pstore (c_RemotePeer c) j))"
    using event_poll_spec [OF _ e, of 20] by simp
  with r True show ?thesis by simp
qed (simp add: connected_event_poll_def)

definition ex_conn :: conn where
  "ex_conn = \<lparr>c_RemotePeer = ''16Uiu2'', c_RemoteAddr = ''/ip4/1'', c_LocalAddr = ''/ip4/2'', c_Direction = DirInbound\<rparr>"

definition ex_store :: "nat \<Rightarrow> string \<Rightarrow> string \<Rightarrow> string + string" where
  "ex_store i p key = (if i < 3 then Inl ''not found'' else Inr ''v'')"

lemma ex_extracted: "extracted ex_peer_pkg i = Some (Secp256k1PublicKey \<lparr>pubX = 3, pubY = 5\<rparr>)"
  by (simp add: extracted_def ex_peer_pkg_def ecdsaToPubkey_def)

theorem connected_event_once_witness:
  "\<exists>kc1. connected_event_poll fifo_lru ex_peer_pkg (@) [] CONN_TYPE_ALL ex_conn ex_store (lru_New fifo_lru 10) =
     Return (Some (True, ''session:/ip4/1/ip4/2'', \<lparr>pubX = 3, pubY = 5\<rparr>), 3, kc1)"
proof -
  have ident: "identified ex_peer_pkg ex_store (c_RemotePeer ex_conn) i \<longleftrightarrow> 3 \<le> i" for i
    by (simp add: identified_def GetPeerMeta_def with_peer_def ex_peer_pkg_def ex_conn_def ex_store_def)
  obtain r w kc1 where r: "connected_event_poll fifo_lru ex_peer_pkg (@) [] CONN_TYPE_ALL ex_conn ex_store (lru_New fifo_lru 10) =
      Return (r, w, kc1)"
    and "r \<noteq> None \<longleftrightarrow> conn_passes (@) [] CONN_TYPE_ALL ex_conn \<and> (\<exists>i<20::nat. 3 \<le> i)"
    and some: "r \<noteq> None \<longrightarrow> r = Some (conn_in ex_conn, conn_session ex_conn, \<lparr>pubX = 3, pubY = 5\<rparr>) \<and> 3 \<le> w \<and> (\<forall>i<w. \<not> 3 \<le> i)"
    using connected_event_once [OF fifo_lru_laws memo_ok_New [OF fifo_lru_laws, where n = 10] ex_extracted,
        where c = ex_conn and enc = "(@)" and conns = "[]" and t = CONN_TYPE_ALL and pstore = ex_store] unfolding ident by blast
  moreover have "conn_passes (@) [] CONN_TYPE_ALL ex_conn"
    by (simp add: conn_passes_def CONN_TYPE_ALL_def CONN_TYPE_RELAY_def CONNT_TYPE_DIRECT_def)
  moreover have "\<exists>i<20::nat. 3 \<le> i" by (rule exI [of _ 3]) simp
  ultimately have "r = Some (conn_in ex_conn, conn_session ex_conn, \<lparr>pubX = 3, pubY = 5\<rparr>) \<and> w = 3"
    by (metis antisym_conv3 not_le less_irrefl)
  with r show ?thesis by (simp add: ex_conn_def conn_in_def conn_session_def)
qed

subsection \<open>Disconnections\<close>

text \<open>
  C8: on a disconnection the service's own handler deletes every stream of the peer, whatever its protocol
  (without the separator of the stream keys), keeps the streams of other peers and the cache
  well-formed; it panics exactly when the peer's key is not a secp256k1 key.
\<close>

theorem disconnect_cleans:
  assumes "lru_laws C ct" and "memo_ok ct (extracted pp) kc" and "pool_wf p"
    and "\<forall>k. extracted pp (c_RemotePeer c) = Some (Secp256k1PublicKey k) \<longrightarrow>
      ID_Pretty pp (fst (IDFromPublicKey pp (Secp256k1PublicKey k))) = c_RemotePeer c"
    and "CHR ''@'' \<notin> set protoid" and "CHR ''@'' \<notin> set peer"
  shows "if \<exists>k. extracted pp (c_RemotePeer c) = Some (Secp256k1PublicKey k)
    then \<exists>kc1 p1. on_disconnect C L pp c (kc, p) = Return (kc1, p1) \<and> memo_ok ct (extracted pp) kc1 \<and>
      streams_at p1 (newStreamKey peer protoid) =
        (if peer = c_RemotePeer c then {} else streams_at p (newStreamKey peer protoid))
    else \<exists>m. on_disconnect C L pp c (kc, p) = Panic m"
proof (cases "\<exists>k. extracted pp (c_RemotePeer c) = Some (Secp256k1PublicKey k)")
  case True
  then obtain k where k: "extracted pp (c_RemotePeer c) = Some (Secp256k1PublicKey k)" by blast
  obtain kc1 where key: "conn_key C pp c kc = Return (k, kc1)" "memo_ok ct (extracted pp) kc1"
    using conn_key_secp [OF assms(1,2) k] by blast
  have "fst (ECDSAPubEncode pp k) = c_RemotePeer c"
    using assms(4) k by (cases "IDFromPublicKey pp (Secp256k1PublicKey k)") (simp add: ECDSAPubEncode_def ecdsaToPubkey_def)
  with key True del2_peer_streams [OF assms(3,5,6), of L "c_RemotePeer c" "[]"] show ?thesis
    by (auto simp: on_disconnect_def disconnected_event_def clean_streams_def)
next
  case False
  then obtain m where "conn_key C pp c kc = Panic m" using conn_key_panic [OF assms(1,2)] by blast
  with False show ?thesis by (simp add: on_disconnect_def disconnected_event_def)
qed

theorem disconnect_cleans_witness:
  "\<exists>kc1 p1. on_disconnect fifo_lru fifo_lru ex_peer_pkg ex_conn
      (lru_New fifo_lru 10, put ex_stream (NewAStreamCatch fifo_lru None) :: (_, nat) AStreamCache) = Return (kc1, p1) \<and>
     streams_at p1 (newStreamKey ''16Uiu2'' ''/echo/1'') = {}"
proof -
  have a: "CHR ''@'' \<notin> set ''/echo/1''" and b: "CHR ''@'' \<notin> set ''16Uiu2''" by simp_all
  have "\<forall>k. extracted ex_peer_pkg (c_RemotePeer ex_conn) = Some (Secp256k1PublicKey k) \<longrightarrow>
      ID_Pretty ex_peer_pkg (fst (IDFromPublicKey ex_peer_pkg (Secp256k1PublicKey k))) = c_RemotePeer ex_conn"
    by (simp add: ex_peer_pkg_def ex_conn_def)
  then have "if \<exists>k. extracted ex_peer_pkg (c_RemotePeer ex_conn) = Some (Secp256k1PublicKey k)
    then \<exists>kc1 p1. on_disconnect fifo_lru fifo_lru ex_peer_pkg ex_conn
        (lru_New fifo_lru 10, put ex_stream (NewAStreamCatch fifo_lru None) :: (_, nat) AStreamCache) = Return (kc1, p1) \<and>
      memo_ok fifo_ct (extracted ex_peer_pkg) kc1 \<and>
      streams_at p1 (newStreamKey ''16Uiu2'' ''/echo/1'') =
        (if ''16Uiu2'' = c_RemotePeer ex_conn then {}
         else streams_at (put ex_stream (NewAStreamCatch fifo_lru None) :: (_, nat) AStreamCache) (newStreamKey ''16Uiu2'' ''/echo/1''))
    else \<exists>m. on_disconnect fifo_lru fifo_lru ex_peer_pkg ex_conn
        (lru_New fifo_lru 10, put ex_stream (NewAStreamCatch fifo_lru None) :: (_, nat) AStreamCache) = Panic m"
    using disconnect_cleans [OF fifo_lru_laws memo_ok_New [OF fifo_lru_laws] put_wf [OF pool_wf_New] _ a b] by blast
  moreover have "\<exists>k. extracted ex_peer_pkg (c_RemotePeer ex_conn) = Some (Secp256k1PublicKey k)"
    using ex_extracted by blast
  moreover have "''16Uiu2'' = c_RemotePeer ex_conn" by (simp add: ex_conn_def)
  ultimately show ?thesis by metis
qed

end
