(* ===== verification/PubsubSpec.thy ===== *)
theory PubsubSpec
  imports Pubsub
begin

text \<open>
  The service's map of topics agrees with the library's handles and subscriptions; subscribing with a
  validator and unsubscribing is a round trip; without one, unsubscribing leaves the topic subscribed
  in the library and out of the service's reach for good.
\<close>

subsection \<open>Using the laws\<close>

lemma pubsub_lawsD:
  assumes "pubsub_laws P V"
  shows "join_law P V" "register_law P V" "unregister_law P V" "sub_law P V" "close_law P V" "cancel_law P V" "publish_law P V"
  using assms by (simp_all add: pubsub_laws_def)

lemma Join_law:
  "pubsub_laws P V \<Longrightarrow> ps_Join P t p = (r, q) \<Longrightarrow>
   (case r of
      Inr h \<Rightarrow> t \<notin> joined V p \<and> topic_of V h = t \<and> joined V q = insert t (joined V p) \<and>
        validated V q = validated V p \<and> live V q = live V p
    | Inl e \<Rightarrow> same_view V p q)"
  using pubsub_lawsD(1) unfolding join_law_def by blast

lemma Register_law:
  "pubsub_laws P V \<Longrightarrow> ps_RegisterTopicValidator P t f n b d p = (r, q) \<Longrightarrow>
   (case r of
      None \<Rightarrow> t \<notin> validated V p \<and> validated V q = insert t (validated V p) \<and> joined V q = joined V p \<and> live V q = live V p
    | Some e \<Rightarrow> same_view V p q)"
  using pubsub_lawsD(2) unfolding register_law_def by blast

lemma Unregister_law:
  "pubsub_laws P V \<Longrightarrow> ps_UnregisterTopicValidator P t p = (r, q) \<Longrightarrow>
   (case r of
      None \<Rightarrow> t \<in> validated V p \<and> validated V q = validated V p - {t} \<and> joined V q = joined V p \<and> live V q = live V p
    | Some e \<Rightarrow> t \<notin> validated V p \<and> same_view V p q)"
  using pubsub_lawsD(3) unfolding unregister_law_def by blast

lemma Sub_law:
  "pubsub_laws P V \<Longrightarrow> t_Subscribe P h p = (r, q) \<Longrightarrow>
   (case r of
      Inr s \<Rightarrow> s \<notin> live V p \<and> sub_topic V s = topic_of V h \<and> live V q = insert s (live V p) \<and>
        joined V q = joined V p \<and> validated V q = validated V p
    | Inl e \<Rightarrow> same_view V p q)"
  using pubsub_lawsD(4) unfolding sub_law_def by blast

lemma Close_law:
  "pubsub_laws P V \<Longrightarrow> t_Close P h p = (r, q) \<Longrightarrow>
   (case r of
      None \<Rightarrow> (\<forall>s \<in> live V p. sub_topic V s \<noteq> topic_of V h) \<and> joined V q = joined V p - {topic_of V h} \<and>
        validated V q = validated V p \<and> live V q = live V p
    | Some e \<Rightarrow> (\<exists>s \<in> live V p. sub_topic V s = topic_of V h) \<and> same_view V p q)"
  using pubsub_lawsD(5) unfolding close_law_def by blast

lemma Cancel_law:
  assumes "pubsub_laws P V"
  shows "live V (s_Cancel P s p) = live V p - {s}" "joined V (s_Cancel P s p) = joined V p"
    "validated V (s_Cancel P s p) = validated V p"
  using pubsub_lawsD(6) [OF assms] unfolding cancel_law_def by blast+

lemma Publish_law: "pubsub_laws P V \<Longrightarrow> t_Publish P h m p = (r, q) \<Longrightarrow> same_view V p q"
  using pubsub_lawsD(7) unfolding publish_law_def by blast

subsection \<open>The invariant\<close>

definition topics_ok :: "('p, 't, 's) pubsub_view \<Rightarrow> ('p, 't, 's, 'cb) topic_srv \<Rightarrow> bool" where
  "topics_ok V srv \<longleftrightarrow>
     (\<forall>s \<in> live V (pubsub srv). sub_topic V s \<in> joined V (pubsub srv)) \<and>
     (\<forall>t h s. topics srv t = Some (h, s) \<longrightarrow>
        topic_of V h = t \<and> sub_topic V s = t \<and> t \<in> joined V (pubsub srv) \<and> s \<in> live V (pubsub srv) \<and>
        (\<forall>s' \<in> live V (pubsub srv). sub_topic V s' = t \<longrightarrow> s' = s))"

definition unreachable :: "('p, 't, 's) pubsub_view \<Rightarrow> string \<Rightarrow> 's \<Rightarrow> ('p, 't, 's, 'cb) topic_srv \<Rightarrow> bool" where
  "unreachable V t s srv \<longleftrightarrow>
     topics srv t = None \<and> t \<in> joined V (pubsub srv) \<and> s \<in> live V (pubsub srv) \<and> sub_topic V s = t"

lemma topics_ok_view:
  "same_view V (pubsub srv) p \<Longrightarrow> topics_ok V (srv\<lparr>pubsub := p\<rparr>) = topics_ok V srv"
  "same_view V (pubsub srv) p \<Longrightarrow> unreachable V t s (srv\<lparr>pubsub := p\<rparr>) = unreachable V t s srv"
  by (simp_all add: same_view_def topics_ok_def unreachable_def)

text \<open>The three ways in which an operation changes what the library holds.\<close>

lemma topics_ok_drop:
  "topics_ok V srv \<Longrightarrow> topics_ok V (srv\<lparr>topics := (topics srv)(t := None)\<rparr>)"
  by (auto simp: topics_ok_def)

lemma Publish_ok:
  assumes "pubsub_laws P V" and "Publish P t m srv = (e, srv')"
  shows "topics_ok V srv \<Longrightarrow> topics_ok V srv'" and "unreachable V u s srv \<Longrightarrow> unreachable V u s srv'"
  using assms(2) Publish_law [OF assms(1)]
  by (auto simp: Publish_def topics_ok_view split: option.splits prod.splits)

lemma Subscribe_handle_ok:
  assumes "pubsub_laws P V" and "topic_of V h = t" and "t \<in> joined V (pubsub srv)"
    and "topics_ok V srv" and "\<forall>s \<in> live V (pubsub srv). sub_topic V s \<noteq> t"
    and "Subscribe_handle P t cb h srv = (e, srv')"
  shows "topics_ok V srv' \<and> (unreachable V u s srv \<longrightarrow> unreachable V u s srv')"
proof -
  obtain r q where q: "t_Subscribe P h (pubsub srv) = (r, q)" by fastforce
  note l = Sub_law [OF assms(1) q]
  show ?thesis
  proof (cases r)
    case (Inl x)
    then show ?thesis using l q assms(4,6) by (auto simp: Subscribe_handle_def topics_ok_view)
  next
    case (Inr b)
    have srv': "srv' = srv\<lparr>pubsub := q, topics := (topics srv)(t \<mapsto> (h, b)), receivers := receivers srv @ [(b, cb)]\<rparr>"
      using q assms(6) Inr by (simp add: Subscribe_handle_def)
    have "topics_ok V srv'"
      using l assms(2-5) unfolding srv' Inr topics_ok_def by (auto split: if_splits)
    moreover have "unreachable V u s srv \<Longrightarrow> unreachable V u s srv'"
      using l assms(5) unfolding srv' Inr unreachable_def by auto
    ultimately show ?thesis by blast
  qed
qed

text \<open>After a successful \<open>Join\<close> the topic has no live subscription.\<close>

lemma Join_ok:
  assumes "pubsub_laws P V" and "ps_Join P t (pubsub srv) = (Inr h, p)" and "topics_ok V srv"
  shows "topics_ok V (srv\<lparr>pubsub := p\<rparr>)" "topic_of V h = t" "t \<in> joined V p" "\<forall>s \<in> live V p. sub_topic V s \<noteq> t"
    and "unreachable V u s srv \<Longrightarrow> unreachable V u s (srv\<lparr>pubsub := p\<rparr>)"
  using Join_law [OF assms(1,2)] assms(3) by (auto simp: topics_ok_def unreachable_def)

lemma Register_ok:
  assumes "pubsub_laws P V" and "ps_RegisterTopicValidator P t f n b d p = (r, q)"
  shows "topics_ok V (srv\<lparr>pubsub := q\<rparr>) = topics_ok V (srv\<lparr>pubsub := p\<rparr>)"
    and "unreachable V u s (srv\<lparr>pubsub := q\<rparr>) = unreachable V u s (srv\<lparr>pubsub := p\<rparr>)"
    and "live V q = live V p" "joined V q = joined V p"
  using Register_law [OF assms]
  by (auto simp: same_view_def topics_ok_def unreachable_def split: option.splits)

lemma Subscribe_ok:
  assumes laws: "pubsub_laws P V" and ok: "topics_ok V srv" and S: "Subscribe P t cb opts srv = (e, srv')"
  shows "topics_ok V srv' \<and> (unreachable V u s srv \<longrightarrow> unreachable V u s srv')"
proof -
  obtain e0 tc where tc: "TopicConfig_Apply opts default_TopicConfig = (e0, tc)" by fastforce
  obtain r p where J: "ps_Join P t (pubsub srv) = (r, p)" by fastforce
  show ?thesis
  proof (cases "e0 \<noteq> None \<or> topics srv t \<noteq> None \<or> (\<exists>x. r = Inl x)")
    case True
    then show ?thesis using S tc J Join_law [OF laws J] ok
      by (auto simp: Subscribe_def topics_ok_view split: option.splits if_splits)
  next
    case False
    then obtain h where r: "r = Inr h" and e0: "e0 = None" and tt: "topics srv t = None" by (cases r) blast+
    note j = Join_ok [OF laws J [unfolded r] ok]
    show ?thesis
    proof (cases "valdator tc")
      case None
      then have "Subscribe_handle P t cb h (srv\<lparr>pubsub := p\<rparr>) = (e, srv')"
        using S tc J r e0 tt by (simp add: Subscribe_def)
      from Subscribe_handle_ok [OF laws j(2) _ j(1) _ this] j(3-5) show ?thesis by simp
    next
      case (Some v)
      obtain r2 q where R: "ps_RegisterTopicValidator P t (\<lambda>m. v (m_From m) (m_ReceivedFrom m) (m_Data m))
          (throttle tc) (inline tc) (timeout tc) p = (r2, q)" by fastforce
      note reg = Register_ok [OF laws R]
      have ok2: "topics_ok V (srv\<lparr>pubsub := q\<rparr>)" using reg(1) [of srv] j(1) by blast
      show ?thesis
      proof (cases r2)
        case None
        then have "Subscribe_handle P t cb h (srv\<lparr>pubsub := q\<rparr>) = (e, srv')"
          using S tc J r e0 tt Some R by (simp add: Subscribe_def)
        from Subscribe_handle_ok [OF laws j(2) _ ok2 _ this, of u s] j(3,4) reg(3,4)
        have "topics_ok V srv' \<and> (unreachable V u s (srv\<lparr>pubsub := q\<rparr>) \<longrightarrow> unreachable V u s srv')" by simp
        then show ?thesis using j(5) reg(2) [of u s srv] by blast
      next
        case (Some x)
        then have "srv' = srv\<lparr>pubsub := q\<rparr>"
          using S tc J r e0 tt \<open>valdator tc = Some v\<close> R by (auto simp: Subscribe_def)
        then show ?thesis using ok2 j(5) reg(2) [of u s srv] by blast
      qed
    qed
  qed
qed

lemma Unsubscribe_eq_drop:
  assumes "Unsubscribe P t srv = (e, srv')"
  shows "topics srv' = (topics srv)(t := None)"
  using assms by (auto simp: Unsubscribe_def split: option.splits prod.splits)

text \<open>The subscription that is filed under the topic is its only one, so the topic can be closed.\<close>

lemma Unsubscribe_cases:
  assumes laws: "pubsub_laws P V" and ok: "topics_ok V srv" and U: "Unsubscribe P t srv = (e, srv')"
    and T: "topics srv t = Some (h, s)"
  shows "if t \<in> validated V (pubsub srv)
    then e = None \<and> joined V (pubsub srv') = joined V (pubsub srv) - {t} \<and>
      validated V (pubsub srv') = validated V (pubsub srv) - {t} \<and> live V (pubsub srv') = live V (pubsub srv) - {s}
    else e \<noteq> None \<and> same_view V (pubsub srv) (pubsub srv')"
proof -
  obtain r p where R: "ps_UnregisterTopicValidator P t (pubsub srv) = (r, p)" by fastforce
  note un = Unregister_law [OF laws R]
  show ?thesis
  proof (cases r)
    case None
    obtain r2 q where C: "t_Close P h (s_Cancel P s p) = (r2, q)" by fastforce
    note cl = Close_law [OF laws C] and ca = Cancel_law [OF laws, of s p]
    have h: "topic_of V h = t" and only: "\<forall>s' \<in> live V (pubsub srv). sub_topic V s' = t \<longrightarrow> s' = s"
      using ok T unfolding topics_ok_def by blast+
    have "r2 = None" using cl ca un None h only by (auto split: option.splits)
    moreover have "e = r2" "pubsub srv' = q" using U T R None C by (auto simp: Unsubscribe_def)
    ultimately show ?thesis using cl ca un None h by simp
  next
    case (Some x)
    then show ?thesis using U T R un by (auto simp: Unsubscribe_def)
  qed
qed

lemma Unsubscribe_none:
  "topics srv t = None \<Longrightarrow> Unsubscribe P t srv = (e, srv') \<Longrightarrow> e \<noteq> None \<and> pubsub srv' = pubsub srv"
  by (auto simp: Unsubscribe_def)

lemma Unsubscribe_ok:
  assumes laws: "pubsub_laws P V" and ok: "topics_ok V srv" and U: "Unsubscribe P t srv = (e, srv')"
  shows "topics_ok V srv' \<and> (unreachable V u s srv \<longrightarrow> unreachable V u s srv')"
proof (cases "topics srv t")
  case None
  then show ?thesis
    using Unsubscribe_none [OF None U] Unsubscribe_eq_drop [OF U] ok by (auto simp: topics_ok_def unreachable_def)
next
  case (Some a)
  obtain h b where T: "topics srv t = Some (h, b)" using Some by (cases a) auto
  note c = Unsubscribe_cases [OF laws ok U T] and d = Unsubscribe_eq_drop [OF U]
  have f: "sub_topic V b = t" "\<forall>s' \<in> live V (pubsub srv). sub_topic V s' = t \<longrightarrow> s' = b"
    using ok T unfolding topics_ok_def by blast+
  show ?thesis
  proof (cases "t \<in> validated V (pubsub srv)")
    case True
    with c have c: "joined V (pubsub srv') = joined V (pubsub srv) - {t}" "live V (pubsub srv') = live V (pubsub srv) - {b}"
      by simp_all
    have "topics_ok V srv'" using ok f unfolding topics_ok_def c d by (auto split: if_splits)
    moreover have "unreachable V u s srv \<Longrightarrow> unreachable V u s srv'" using T f unfolding unreachable_def c d by auto
    ultimately show ?thesis by blast
  next
    case False
    with c d ok show ?thesis by (auto simp: same_view_def topics_ok_def unreachable_def split: if_splits)
  qed
qed

lemma topic_step_ok:
  assumes "pubsub_laws P V" and "topics_ok V srv" and "topic_step P srv srv'"
  shows "topics_ok V srv' \<and> (unreachable V u s srv \<longrightarrow> unreachable V u s srv')"
  using assms(3)
proof cases
  case (ts_publish t msg e)
  then show ?thesis using Publish_ok [OF assms(1)] assms(2) by blast
next
  case (ts_subscribe t cb opts e)
  then show ?thesis using Subscribe_ok [OF assms(1,2)] by blast
next
  case (ts_unsubscribe t e)
  then show ?thesis using Unsubscribe_ok [OF assms(1,2)] by blast
qed

interpretation topic_sys: safe_system "topics_ok V" "\<lambda>a b. pubsub_laws P V \<and> topic_step P a b" "topics_ok V"
  for P :: "('p, 't, 's) pubsub_ops" and V
  by unfold_locales (auto dest: topic_step_ok)

lemma unreachable_stays:
  assumes "pubsub_laws P V" and "topics_ok V srv" and "unreachable V u s srv" and "(topic_step P)\<^sup>*\<^sup>* srv srv'"
  shows "topics_ok V srv' \<and> unreachable V u s srv'"
  using assms(4,2,3)
  by (induction rule: rtranclp_induct) (auto dest: topic_step_ok [OF assms(1)])

lemma unreachable_errors:
  assumes "pubsub_laws P V" and "unreachable V t s srv"
  shows "fst (Subscribe P t cb opts srv) \<noteq> None" "fst (Publish P t msg srv) \<noteq> None" "fst (Unsubscribe P t srv) \<noteq> None"
proof -
  obtain r p where J: "ps_Join P t (pubsub srv) = (r, p)" by fastforce
  then have "\<exists>x. r = Inl x"
    using Join_law [OF assms(1) J] assms(2) by (cases r) (auto simp: unreachable_def)
  with J show "fst (Subscribe P t cb opts srv) \<noteq> None"
    by (auto simp: Subscribe_def split: prod.splits option.splits)
qed (use assms(2) in \<open>simp_all add: unreachable_def Publish_def Unsubscribe_def\<close>)

subsection \<open>Subscribing and unsubscribing\<close>

lemma Subscribe_result:
  assumes laws: "pubsub_laws P V" and S: "Subscribe P t cb opts srv = (None, srv')"
    and tc: "TopicConfig_Apply opts default_TopicConfig = (None, tc)"
  obtains h s where "topics srv t = None" "topics srv' = (topics srv)(t \<mapsto> (h, s))" "(s, cb) \<in> set (receivers srv')"
    "t \<notin> joined V (pubsub srv)" "joined V (pubsub srv') = insert t (joined V (pubsub srv))"
    "s \<notin> live V (pubsub srv)" "live V (pubsub srv') = insert s (live V (pubsub srv))" "sub_topic V s = t"
    "if valdator tc = None then validated V (pubsub srv') = validated V (pubsub srv)
     else t \<notin> validated V (pubsub srv) \<and> validated V (pubsub srv') = insert t (validated V (pubsub srv))"
proof -
  have tt: "topics srv t = None" using S tc by (cases "topics srv t") (simp_all add: Subscribe_def)
  obtain h p where J: "ps_Join P t (pubsub srv) = (Inr h, p)"
    using S tc tt by (auto simp: Subscribe_def split: prod.splits sum.splits)
  have "\<exists>q. Subscribe_handle P t cb h (srv\<lparr>pubsub := q\<rparr>) = (None, srv') \<and> live V q = live V p \<and> joined V q = joined V p \<and>
      (if valdator tc = None then q = p else t \<notin> validated V p \<and> validated V q = insert t (validated V p))"
  proof (cases "valdator tc")
    case None
    then show ?thesis using S tc tt J by (auto simp: Subscribe_def)
  next
    case (Some v)
    then obtain q where R: "ps_RegisterTopicValidator P t (\<lambda>m. v (m_From m) (m_ReceivedFrom m) (m_Data m))
        (throttle tc) (inline tc) (timeout tc) p = (None, q)" "Subscribe_handle P t cb h (srv\<lparr>pubsub := q\<rparr>) = (None, srv')"
      using S tc tt J by (auto simp: Subscribe_def split: prod.splits option.splits)
    then show ?thesis using Some Register_law [OF laws R(1)] by (intro exI [of _ q]) simp
  qed
  then obtain q where q: "Subscribe_handle P t cb h (srv\<lparr>pubsub := q\<rparr>) = (None, srv')" "live V q = live V p" "joined V q = joined V p"
      "if valdator tc = None then q = p else t \<notin> validated V p \<and> validated V q = insert t (validated V p)" by blast
  obtain s q2 where s: "t_Subscribe P h q = (Inr s, q2)"
    "srv' = srv\<lparr>pubsub := q2, topics := (topics srv)(t \<mapsto> (h, s)), receivers := receivers srv @ [(s, cb)]\<rparr>"
    using q(1) by (auto simp: Subscribe_handle_def split: prod.splits sum.splits)
  show thesis
    by (rule that [of h s])
      (use tt s(2) q Join_law [OF laws J] Sub_law [OF laws s(1)] in \<open>auto split: if_splits\<close>)
qed

subsection \<open>A library\<close>

text \<open>A small library with the laws, for the witnesses: handles are topic names, subscriptions are numbered.\<close>

record tiny =
  tj :: "string list"
  tv :: "string list"
  tsubs :: "(nat \<times> string) list"
  tn :: nat

definition tiny_ops :: "(tiny, string, nat \<times> string) pubsub_ops" where
  "tiny_ops = \<lparr>
     ps_Join = (\<lambda>t p. if t \<in> set (tj p) then (Inl ''topic already exists'', p) else (Inr t, p\<lparr>tj := t # tj p\<rparr>)),
     ps_RegisterTopicValidator = (\<lambda>t f n b d p.
       if t \<in> set (tv p) then (Some ''duplicate validator'', p) else (None, p\<lparr>tv := t # tv p\<rparr>)),
     ps_UnregisterTopicValidator = (\<lambda>t p.
       if t \<in> set (tv p) then (None, p\<lparr>tv := filter (\<lambda>u. u \<noteq> t) (tv p)\<rparr>) else (Some ''no validator'', p)),
     t_Subscribe = (\<lambda>h p. if (tn p, h) \<in> set (tsubs p) then (Inl ''busy'', p)
        else (Inr (tn p, h), p\<lparr>tsubs := (tn p, h) # tsubs p, tn := tn p + 1\<rparr>)),
     t_Publish = (\<lambda>h m p. (None, p)),
     t_Close = (\<lambda>h p. if list_ex (\<lambda>s. snd s = h) (tsubs p) then (Some ''outstanding subscriptions'', p)
       else (None, p\<lparr>tj := filter (\<lambda>u. u \<noteq> h) (tj p)\<rparr>)),
     s_Cancel = (\<lambda>s p. p\<lparr>tsubs := filter (\<lambda>u. u \<noteq> s) (tsubs p)\<rparr>)\<rparr>"

definition tiny_view :: "(tiny, string, nat \<times> string) pubsub_view" where
  "tiny_view = \<lparr>joined = (\<lambda>p. set (tj p)), validated = (\<lambda>p. set (tv p)), live = (\<lambda>p. set (tsubs p)),
     topic_of = (\<lambda>h. h), sub_topic = snd\<rparr>"

lemma tiny_laws: "pubsub_laws tiny_ops tiny_view"
  by (auto simp: pubsub_laws_def join_law_def register_law_def unregister_law_def sub_law_def close_law_def
      cancel_law_def publish_law_def same_view_def tiny_ops_def tiny_view_def list_ex_iff
      split: sum.splits option.splits if_splits)

definition ex_topics :: "(tiny, string, nat \<times> string, nat) topic_srv" where
  "ex_topics = \<lparr>topics = (\<lambda>t. None), pubsub = \<lparr>tj = [], tv = [], tsubs = [], tn = 0\<rparr>, receivers = []\<rparr>"

definition ex_topics1 :: "string list \<Rightarrow> (tiny, string, nat \<times> string, nat) topic_srv" where
  "ex_topics1 vs = \<lparr>topics = [''news'' \<mapsto> (''news'', (0, ''news''))],
     pubsub = \<lparr>tj = [''news''], tv = vs, tsubs = [(0, ''news'')], tn = 1\<rparr>, receivers = [((0, ''news''), 7)]\<rparr>"

lemma ex_topics_ok: "topics_ok tiny_view ex_topics"
  by (simp add: topics_ok_def tiny_view_def ex_topics_def)

lemma ex_Subscribe:
  "Subscribe tiny_ops ''news'' 7 [] ex_topics = (None, ex_topics1 [])"
  "Subscribe tiny_ops ''news'' 7 [Some (Opt_WithValidator (Some v))] ex_topics = (None, ex_topics1 [''news''])"
  by (simp_all add: Subscribe_def TopicConfig_Apply_def default_TopicConfig_def tiny_ops_def ex_topics_def
      Subscribe_handle_def ex_topics1_def Opt_WithValidator_def)

text \<open>
  C17: subscribing with a validator and unsubscribing is a round trip: \<open>Unsubscribe\<close> succeeds and the topics, the
  library's handles, its validators and its live subscriptions are those from before \<open>Subscribe\<close>.
\<close>

theorem unsubscribe_roundtrip:
  assumes "pubsub_laws P V" and "topics_ok V srv"
    and "TopicConfig_Apply opts default_TopicConfig = (None, tc)" and "valdator tc \<noteq> None"
    and "Subscribe P t cb opts srv = (None, srv1)" and "Unsubscribe P t srv1 = (e, srv2)"
  shows "e = None \<and> topics srv2 = topics srv \<and> same_view V (pubsub srv) (pubsub srv2)"
proof -
  obtain h s where r: "topics srv t = None" "topics srv1 = (topics srv)(t \<mapsto> (h, s))"
    "t \<notin> joined V (pubsub srv)" "joined V (pubsub srv1) = insert t (joined V (pubsub srv))"
    "s \<notin> live V (pubsub srv)" "live V (pubsub srv1) = insert s (live V (pubsub srv))"
    "t \<notin> validated V (pubsub srv)" "validated V (pubsub srv1) = insert t (validated V (pubsub srv))"
    by (rule Subscribe_result [OF assms(1,5,3)]) (use assms(4) in auto)
  have ok: "topics_ok V srv1" using Subscribe_ok [OF assms(1,2,5)] by blast
  have T: "topics srv1 t = Some (h, s)" using r(2) by simp
  show ?thesis
    using Unsubscribe_cases [OF assms(1) ok assms(6) T] Unsubscribe_eq_drop [OF assms(6)] r
    by (auto simp: same_view_def fun_upd_idem_iff)
qed

theorem unsubscribe_roundtrip_witness:
  "fst (Unsubscribe tiny_ops ''news'' (ex_topics1 [''news''])) = None"
proof -
  obtain e srv2 where U: "Unsubscribe tiny_ops ''news'' (ex_topics1 [''news'']) = (e, srv2)" by fastforce
  have A: "TopicConfig_Apply [Some (Opt_WithValidator (Some (\<lambda>a b c. True)))] default_TopicConfig =
      (None, default_TopicConfig\<lparr>valdator := Some (\<lambda>a b c. True)\<rparr>)"
    by (simp add: TopicConfig_Apply_def Opt_WithValidator_def)
  show ?thesis
    using unsubscribe_roundtrip [OF tiny_laws ex_topics_ok A _ ex_Subscribe(2) U] U by simp
qed

text \<open>
  C40: without a validator \<open>Unsubscribe\<close> fails before it cancels the subscription: from then on, whatever the
  service is called for, the callback's subscription is live while \<open>Subscribe\<close>, \<open>Publish\<close> and
  \<open>Unsubscribe\<close> of the topic fail.
\<close>

theorem unsubscribe_strands:
  assumes "pubsub_laws P V" and "topics_ok V srv"
    and "TopicConfig_Apply opts default_TopicConfig = (None, tc)" and "valdator tc = None"
    and "t \<notin> validated V (pubsub srv)" and "Subscribe P t cb opts srv = (None, srv1)"
    and "Unsubscribe P t srv1 = (e, srv2)" and "(topic_step P)\<^sup>*\<^sup>* srv2 srv3"
  shows "e \<noteq> None \<and> (\<exists>s. (s, cb) \<in> set (receivers srv1) \<and> s \<in> live V (pubsub srv3)) \<and>
    fst (Subscribe P t cb' opts' srv3) \<noteq> None \<and> fst (Publish P t msg srv3) \<noteq> None \<and> fst (Unsubscribe P t srv3) \<noteq> None"
proof -
  obtain h s where r: "topics srv1 = (topics srv)(t \<mapsto> (h, s))" "(s, cb) \<in> set (receivers srv1)"
    "joined V (pubsub srv1) = insert t (joined V (pubsub srv))" "live V (pubsub srv1) = insert s (live V (pubsub srv))"
    "sub_topic V s = t" "validated V (pubsub srv1) = validated V (pubsub srv)"
    by (rule Subscribe_result [OF assms(1,6,3)]) (use assms(4) in auto)
  have ok: "topics_ok V srv1" using Subscribe_ok [OF assms(1,2,6)] by blast
  have T: "topics srv1 t = Some (h, s)" using r(1) by simp
  have u: "e \<noteq> None" "same_view V (pubsub srv1) (pubsub srv2)"
    using Unsubscribe_cases [OF assms(1) ok assms(7) T] r(6) assms(5) by simp_all
  have "unreachable V t s srv2"
    using u(2) r Unsubscribe_eq_drop [OF assms(7)] by (auto simp: unreachable_def same_view_def)
  then have "unreachable V t s srv3"
    using unreachable_stays [OF assms(1) _ _ assms(8)] Unsubscribe_ok [OF assms(1) ok assms(7)] by blast
  with u(1) r(2) unreachable_errors [OF assms(1) this] show ?thesis by (auto simp: unreachable_def)
qed

theorem unsubscribe_strands_witness:
  "fst (Unsubscribe tiny_ops ''news'' (ex_topics1 [])) \<noteq> None \<and>
   fst (Subscribe tiny_ops ''news'' 8 [] (snd (Unsubscribe tiny_ops ''news'' (ex_topics1 [])))) \<noteq> None"
proof -
  obtain e srv2 where U: "Unsubscribe tiny_ops ''news'' (ex_topics1 []) = (e, srv2)" by fastforce
  have A: "TopicConfig_Apply [] default_TopicConfig = (None, default_TopicConfig)" by (simp add: TopicConfig_Apply_def)
  have n: "''news'' \<notin> validated tiny_view (pubsub ex_topics)" by (simp add: tiny_view_def ex_topics_def)
  show ?thesis
    using unsubscribe_strands [OF tiny_laws ex_topics_ok A _ n ex_Subscribe(1) U rtranclp.rtrancl_refl, of 8 "[]"] U
    by (simp add: default_TopicConfig_def)
qed

end
