(* ===== verification/BootstrapSpec.thy ===== *)
theory BootstrapSpec
  imports Bootstrap
begin

text \<open>
  What the bootstrap promises: the other peers are those with addresses that are neither bootnodes nor
  the host; \<open>randPeers\<close> picks a part of a rotation; a round bootstraps the router or dials other peers; the
  wait between rounds; and one loop per process.
\<close>

subsection \<open>Choosing peers\<close>

text \<open>
  The comment over the loop of \<open>peersWithoutBootnodes\<close> says that clients of the DHT are excluded. They are not: no list
  of protocols makes the loop skip a peer. The peers besides the bootnodes are those of the peer store, in its
  order, that have addresses and are neither bootnodes nor the host itself, whatever protocols they speak.
\<close>

lemma client_loop_never: "\<not> client_loop clients protols"
  by (induction protols) simp_all

lemma others_loop_eq:
  "others_loop pp H bootmap clients ps r =
     r @ filter (\<lambda>i. ai_Addrs i \<noteq> []) (map (h_PeerInfo H)
       (filter (\<lambda>p. ID_Pretty pp p \<notin> set bootmap \<and> ID_Pretty pp p \<noteq> ID_Pretty pp (h_self H)) ps))"
  by (induction ps arbitrary: r) (simp_all add: Let_def client_loop_never split: sum.split)

theorem peersWithoutBootnodes_eq:
  "peersWithoutBootnodes pp H B =
     filter (\<lambda>i. ai_Addrs i \<noteq> []) (map (h_PeerInfo H)
       (filter (\<lambda>p. ID_Pretty pp p \<notin> (\<lambda>b. ID_Pretty pp (ai_ID b)) ` set (boot_list B) \<and>
          ID_Pretty pp p \<noteq> ID_Pretty pp (h_self H)) (h_Peers H)))"
  by (simp add: peersWithoutBootnodes_def others_loop_eq)

text \<open>\<open>append\<close> appends, with room in the array or without.\<close>

lemma slice_list_append:
  "slice_ok s \<Longrightarrow> slice_list (go_append grow s xs) = slice_list s @ xs"
  by (auto simp: slice_ok_def slice_list_def go_append_def min_def take_drop add.commute)

lemma len_append: "len (go_append grow s xs) = len s + length xs"
  by (simp add: go_append_def)

lemma slice_ok_append: "slice_ok s \<Longrightarrow> slice_ok (go_append grow s xs)"
  by (auto simp: slice_ok_def go_append_def slice_list_def)

lemma reslice_prefix:
  assumes "slice_ok s" and "n \<le> len s"
  shows "reslice s 0 n = Return (s\<lparr>len := n\<rparr>)" and "slice_list (s\<lparr>len := n\<rparr>) = take n (slice_list s)"
  using assms by (simp_all add: reslice_def slice_ok_def slice_list_def min_def)

lemma reslice_suffix:
  assumes "slice_ok s" and "n \<le> len s"
  shows "reslice s n (len s) = Return (s\<lparr>off := off s + n, len := len s - n\<rparr>)"
    and "slice_list (s\<lparr>off := off s + n, len := len s - n\<rparr>) = drop n (slice_list s)"
    and "slice_ok (s\<lparr>off := off s + n, len := len s - n\<rparr>)"
  using assms by (simp_all add: reslice_def slice_ok_def slice_list_def drop_take add.commute)

text \<open>
  \<open>randPeers\<close> appends a part of the list to another part of the same array, yet returns the first
  \<open>limit\<close> elements of a rotation of the list, wherever the list lies in its array.
\<close>

lemma randPeers_rotation:
  assumes "slice_ok others" and "len others > 0" and "limit \<le> len others"
  shows "randPeers grow (Some r) others limit = Return (take limit (rotate r (slice_list others)))"
proof -
  define n where "n = r mod len others"
  define a where "a = others\<lparr>off := off others + n, len := len others - n\<rparr>"
  define g where "g = go_append grow a (take n (slice_list others))"
  have n: "n \<le> len others" using assms(2) by (simp add: n_def mod_le_divisor)
  have ls: "length (slice_list others) = len others" using assms(1) by (simp add: slice_list_def slice_ok_def)
  note suf = reslice_suffix [OF assms(1) n, folded a_def] and pre = reslice_prefix [OF assms(1) n]
  have g: "slice_ok g" "slice_list g = rotate r (slice_list others)" "limit \<le> len g"
    using slice_ok_append [OF suf(3)] slice_list_append [OF suf(3)] suf(2) n ls assms(3)
    by (simp_all add: g_def rotate_drop_take n_def len_append a_def)
  show ?thesis
    using assms(2)
    by (simp add: randPeers_def Let_def n_def [symmetric] suf(1) pre g_def [symmetric] reslice_prefix [OF g(1,3)] g(2))
qed

theorem randPeers_rotation_witness:
  "randPeers [] (Some 7) \<lparr>arr = [10, 11, 12, 13, 14, 15 :: nat], off = 1, len = 4\<rparr> 3 = Return [14, 11, 12]"
  using randPeers_rotation [of "\<lparr>arr = [10, 11, 12, 13, 14, 15 :: nat], off = 1, len = 4\<rparr>" 3 "[]" 7]
  by (simp add: slice_ok_def slice_list_def rotate_drop_take)

subsection \<open>One round\<close>

lemma mset_rotate: "mset (rotate n xs) = mset xs"
  unfolding rotate_drop_take by (metis append_take_drop_id mset_append union_commute)

text \<open>
  C13: one round of the bootstrap loop, for every schedule of its dials. When a bootnode could be reached, or
  the host is one itself, the router is bootstrapped. Otherwise three other peers are dialled, or all
  when there are fewer: different positions of the list of other peers; with none there is nothing more
  to do. Drawing the peers never panics.
\<close>

theorem boot_round_spec:
  assumes "\<forall>ps. connectFn (h_self H) (h_Connect H) ps (dial ps)" and "bootnodes B = Some bn"
    and "h_rnd H = Some r"
  shows "\<exists>calls f. boot_round dial pp H B flag = Return (Dial bn # calls, f) \<and>
    (if \<exists>p \<in> set bn. ai_ID p = h_self H \<or> h_Connect H p = None
     then RouterBootstrap \<in> set calls \<and> f \<noteq> 0
     else f = flag \<and>
       (let others = peersWithoutBootnodes pp H B in
        if others = [] then calls = []
        else \<exists>tasks. calls = [Dial tasks] \<and> length tasks = min 3 (length others) \<and> mset tasks \<subseteq># mset others))"
proof -
  let ?o = "peersWithoutBootnodes pp H B"
  have c: "dial bn \<noteq> None \<longleftrightarrow> (\<forall>p \<in> set bn. ai_ID p \<noteq> h_self H \<and> h_Connect H p \<noteq> None)"
    using connectFn_verdict assms(1) by blast
  show ?thesis
  proof (cases "dial bn")
    case None
    then have "\<exists>p \<in> set bn. ai_ID p = h_self H \<or> h_Connect H p = None" using c by blast
    then show ?thesis using None assms(2) by (simp add: boot_round_def BootstrapOnce_def Let_def)
  next
    case (Some e)
    then have nf: "\<not> (\<exists>p \<in> set bn. ai_ID p = h_self H \<or> h_Connect H p = None)" using c by blast
    let ?l = "if length ?o < 3 then length ?o else 3"
    have rp: "?o \<noteq> [] \<Longrightarrow> randPeers [] (Some r) \<lparr>arr = ?o @ h_spare H, off = 0, len = length ?o\<rparr> ?l =
        Return (take ?l (rotate r ?o))"
      using randPeers_rotation [of "\<lparr>arr = ?o @ h_spare H, off = 0, len = length ?o\<rparr>" ?l "[]" r]
      by (simp add: slice_ok_def slice_list_def)
    have sub: "mset (take ?l (rotate r ?o)) \<subseteq># mset ?o"
      by (metis append_take_drop_id mset_append mset_subset_eq_add_left mset_rotate)
    show ?thesis
      using Some assms(2,3) nf rp sub
      by (cases "?o = []") (auto simp: boot_round_def Let_def min_def intro!: exI)
  qed
qed

definition ex_host :: boot_host where
  "ex_host = \<lparr>h_self = ''QmS'', h_Peers = [''QmA'', ''QmC'', ''QmD''], h_PeerInfo = (\<lambda>p. \<lparr>ai_ID = p, ai_Addrs = [p]\<rparr>),
     h_Protocols = (\<lambda>p. Inr []), h_Connect = (\<lambda>p. Some ''refused''), h_Bootstrap = None, h_rnd = Some 5, h_spare = []\<rparr>"

definition ex_boot :: boot_srv where
  "ex_boot = \<lparr>bootnodes = Some [\<lparr>ai_ID = ''QmA'', ai_Addrs = []\<rparr>], clientProtocols = []\<rparr>"

definition boot_pkg :: "string peer_pkg" where
  "boot_pkg = \<lparr>peer_Decode = Inr, ID_Pretty = (\<lambda>i. i), ID_ExtractPublicKey = (\<lambda>i. Inl ''no key''),
     IDFromPublicKey = (\<lambda>k. ('''', Some ''no id''))\<rparr>"

lemma ex_boot_bootnodes: "bootnodes ex_boot = Some [\<lparr>ai_ID = ''QmA'', ai_Addrs = []\<rparr>]"
  and ex_host_rnd: "h_rnd ex_host = Some 5"
  by (simp_all add: ex_boot_def ex_host_def)

text \<open>Every list of peers has a schedule, so the hypothesis on the dials can be met.\<close>

lemma connectFn_total: "\<exists>r. connectFn self Connect peers r"
proof (cases "peers = []")
  case False
  obtain s where s: "(dial_step self Connect (length peers))\<^sup>*\<^sup>* (dial_start peers) s" "dial_done s"
    using dials.ends_final [OF dial_inv_start] by blast
  have "reach (\<lambda>s. s = dial_start peers) (dial_step self Connect (length peers)) s"
    using s(1) by (induction rule: rtranclp_induct) (auto intro: reach.intros)
  with s False show ?thesis by (auto simp: connectFn_def)
qed (auto simp: connectFn_def)

theorem boot_round_spec_witness:
  "\<exists>dial tasks f. boot_round dial boot_pkg ex_host ex_boot 0 =
     Return ([Dial [\<lparr>ai_ID = ''QmA'', ai_Addrs = []\<rparr>], Dial tasks], f) \<and> length tasks = 2"
proof -
  obtain dial where d: "\<forall>ps. connectFn (h_self ex_host) (h_Connect ex_host) ps (dial ps)"
    using connectFn_total by metis
  have o: "peersWithoutBootnodes boot_pkg ex_host ex_boot =
      [\<lparr>ai_ID = ''QmC'', ai_Addrs = [''QmC'']\<rparr>, \<lparr>ai_ID = ''QmD'', ai_Addrs = [''QmD'']\<rparr>]"
    by (simp add: peersWithoutBootnodes_def others_loop_eq boot_pkg_def ex_host_def ex_boot_def boot_list_def)
  have e: "\<not> (\<exists>p \<in> set [\<lparr>ai_ID = ''QmA'', ai_Addrs = []\<rparr>]. ai_ID p = h_self ex_host \<or> h_Connect ex_host p = None)"
    by (simp add: ex_host_def)
  obtain calls f where "boot_round dial boot_pkg ex_host ex_boot 0 =
      Return (Dial [\<lparr>ai_ID = ''QmA'', ai_Addrs = []\<rparr>] # calls, f)"
    "\<exists>tasks. calls = [Dial tasks] \<and> length tasks = 2"
    using boot_round_spec [OF d, of ex_boot "[\<lparr>ai_ID = ''QmA'', ai_Addrs = []\<rparr>]" 5 boot_pkg 0] e
      ex_boot_bootnodes ex_host_rnd by (auto simp: o Let_def)
  then show ?thesis by blast
qed

subsection \<open>Time between rounds\<close>

text \<open>
  C39: the wait between two rounds is the configured period and at least five seconds, as long as the
  period is below 9223372037 seconds; at that value the multiplication wraps around and the wait is
  negative, so that the loop does not wait at all.
\<close>

theorem boot_delay_bounds:
  "(BootstrapPeriod c \<le> 9223372036 \<longrightarrow>
      boot_delay c = max 5 (uint (BootstrapPeriod c)) * 1000000000 \<and> 5000000000 \<le> boot_delay c) \<and>
   (BootstrapPeriod c = 9223372037 \<longrightarrow> boot_delay c < 0)"
proof (intro conjI impI)
  assume le: "BootstrapPeriod c \<le> 9223372036"
  have p: "uint (boot_period c) = max 5 (uint (BootstrapPeriod c))"
    by (auto simp: boot_period_def word_less_def max_def)
  have "uint (BootstrapPeriod c) \<le> 9223372036" using le by (simp add: word_le_def)
  then have b: "0 \<le> uint (boot_period c)" "uint (boot_period c) \<le> 9223372036" by (simp_all add: p)
  then have u: "uint (boot_period c * 1000000000) = uint (boot_period c) * 1000000000"
    by (simp add: uint_word_ariths(3))
  have "0 \<le> i \<Longrightarrow> i \<le> 9223372036 \<Longrightarrow> signed_take_bit 63 (i * 1000000000) = i * 1000000000" for i :: int
    by (rule signed_take_bit_int_eq_self) simp_all
  then have "signed_take_bit 63 (uint (boot_period c) * 1000000000) = uint (boot_period c) * 1000000000"
    using b by blast
  then have "sint (boot_period c * 1000000000) = uint (boot_period c * 1000000000)"
    by (simp add: sint_uint u)
  then show eq: "boot_delay c = max 5 (uint (BootstrapPeriod c)) * 1000000000"
    by (simp add: boot_delay_def u p)
  show "5000000000 \<le> boot_delay c" unfolding eq by simp
qed (simp add: boot_delay_def boot_period_def)

theorem boot_delay_bounds_witness:
  "boot_delay (zero_Config\<lparr>BootstrapPeriod := 30\<rparr>) = 30000000000"
  using boot_delay_bounds [of "zero_Config\<lparr>BootstrapPeriod := 30\<rparr>"] by simp

subsection \<open>One loop per process\<close>

definition loops_inv :: "boot_loops \<Rightarrow> bool" where
  "loops_inv s \<longleftrightarrow> loopboot s = int (looping s) \<and> looping s \<le> 1"

interpretation loops: safe_system "\<lambda>s. s = no_loops" loop_step loops_inv
proof
  fix s t assume "loops_inv s" "loop_step s t"
  then show "loops_inv t" by (auto simp: loops_inv_def elim!: loop_step.cases split: if_splits)
qed (simp add: loops_inv_def no_loops_def)

text \<open>
  However many services of one process call \<open>bootstrap\<close>, and whenever their contexts end, at most one
  of them is in the loop.
\<close>

theorem one_bootstrap_loop:
  assumes "reach (\<lambda>s. s = no_loops) loop_step s"
  shows "looping s \<le> 1 \<and> loopboot s = int (looping s)"
  using loops.reach_inv [OF assms] by (simp add: loops_inv_def)

theorem one_bootstrap_loop_witness:
  "looping \<lparr>loopboot = 1, loopbootstrap = 0, starting = 0, looping = 1, leaving = 0\<rparr> \<le> 1"
proof -
  let ?r = "reach (\<lambda>s. s = no_loops) loop_step"
  have "?r no_loops" by (rule reach_init) simp
  then have "?r \<lparr>loopboot = 0, loopbootstrap = 0, starting = 1, looping = 0, leaving = 0\<rparr>"
    by (rule reach_step) (use b_call [of no_loops] in \<open>simp add: no_loops_def\<close>)
  then have "?r \<lparr>loopboot = 1, loopbootstrap = 0, starting = 0, looping = 1, leaving = 0\<rparr>"
    by (rule reach_step)
      (use b_cas [of "\<lparr>loopboot = 0, loopbootstrap = 0, starting = 1, looping = 0, leaving = 0\<rparr>"] in simp)
  from one_bootstrap_loop [OF this] show ?thesis by simp
qed

end
