(* ===== verification/InitSpec.thy ===== *)
theory InitSpec
  imports Init EventsSpec PubsubSpec BootstrapSpec
begin

text \<open>
  The start of a service: its key is the same at every later start, its components begin in states that
  satisfy their invariants, and the report of its traffic.
\<close>

subsection \<open>The key\<close>

lemma hex_prefix_encode: "hex_prefix (hex_EncodeToString bs) = bs"
proof (induction bs)
  case (Cons b bs)
  then show ?case using hex_byte_digits [of b] by (auto simp: hex_val_char simp del: of_nat_add of_nat_mult)
qed simp

text \<open>
  C20: the identity of a node persists: the key that a start of the service loaded or generated is the key
  that every later start loads, and a later start writes nothing. The hypothesis is that \<open>encoding/json\<close>
  parses what it printed for a generated key.
\<close>

theorem loadid_persists:
  assumes "loadid K homedir files = Return (k, files1)"
    and "\<forall>p. k_Generate K = Inr p \<longrightarrow> k_Unmarshal K (k_Marshal K (keyX p, keyY p, keyD p)) = Inr (key_of p)"
    and "k_Join K' = k_Join K" and "k_Unmarshal K' = k_Unmarshal K"
  shows "loadid K' homedir files1 = Return (k, files1)"
  using assms
  by (auto simp: loadid_def Let_def hex_prefix_encode split: option.splits sum.splits)

definition ex_Marshal :: "int \<times> int \<times> int \<Rightarrow> byte list" where
  "ex_Marshal = (\<lambda>(x, y, d). bytes_of (''['' @ dec_int x @ '','' @ dec_int y @ '','' @ dec_int d @ '']''))"

definition ex_Unmarshal :: "byte list \<Rightarrow> string + key_numbers" where
  "ex_Unmarshal bs = (case map (Some \<circ> int \<circ> undec) (strings_Split (butlast (drop 1 (string_of bs))) '','') of
     [x, y, d] \<Rightarrow> Inr (x, y, d) | _ \<Rightarrow> Inl ''bad json'')"

definition ex_key_env :: key_env where
  "ex_key_env = \<lparr>k_Join = (\<lambda>d f. d @ ''/'' @ f), k_MkdirAll = (\<lambda>d. None), k_WriteFile = (\<lambda>f. None),
     k_Generate = Inr \<lparr>keyX = 3, keyY = 5, keyD = 7\<rparr>, k_Marshal = ex_Marshal, k_Unmarshal = ex_Unmarshal\<rparr>"

text \<open>The second start has another generator; it loads the first one's key.\<close>

theorem loadid_persists_witness:
  "\<exists>files1. loadid ex_key_env ''/home/n'' (\<lambda>f. None) = Return ((Some 3, Some 5, Some 7), files1) \<and>
     loadid (ex_key_env\<lparr>k_Generate := Inl ''no entropy''\<rparr>) ''/home/n'' files1 = Return ((Some 3, Some 5, Some 7), files1)"
proof -
  have u: "ex_Unmarshal (ex_Marshal (3, 5, 7)) = Inr (Some 3, Some 5, Some 7)" by code_simp
  obtain files1 where f: "loadid ex_key_env ''/home/n'' (\<lambda>f. None) = Return ((Some 3, Some 5, Some 7), files1)"
    by (simp add: loadid_def ex_key_env_def key_of_def Let_def)
  have "loadid (ex_key_env\<lparr>k_Generate := Inl ''no entropy''\<rparr>) ''/home/n'' files1 = Return ((Some 3, Some 5, Some 7), files1)"
    by (rule loadid_persists [OF f]) (simp_all add: ex_key_env_def u key_of_def)
  with f show ?thesis by blast
qed

subsection \<open>The state a service starts in\<close>

lemma newService_Return:
  assumes "newService L K ap decode libp2p_New NewGossipSub c maxsize files = Return s"
  shows "ns_asc s = NewAStreamCatch L (Some [])" and "ns_notifiee s = new_notifiee c"
    and "\<exists>p. NewGossipSub = Inr p \<and> ns_topics s = \<lparr>topics = (\<lambda>t. None), pubsub = p, receivers = []\<rparr>"
    and "ns_options s = lib_options decode c (ns_key s)"
  using assms
  by (auto simp: newService_def bind_outcome_Return_iff split: option.splits sum.splits prod.splits)

text \<open>
  C21: a service that \<open>New\<close> returns is ready: its configuration is complete, its stream cache is empty and
  well-formed, its topics agree with a fresh pubsub, the handler that cleans up after disconnections is
  the first one registered, inbound connections are rejected exactly when the configuration says so,
  and the connection manager got limits that are not zero.
\<close>

theorem New_ready:
  assumes "New L K ap decode libp2p_New NewGossipSub opts maxsize files = Return (Inr s)"
    and "\<forall>p. NewGossipSub = Inr p \<longrightarrow> live V p = {}"
  shows "\<exists>c. New_config opts = (None, c) \<and> complete_config c \<and> pool_wf (ns_asc s) \<and> pool (ns_asc s) = [] \<and>
    topics_ok V (ns_topics s) \<and> hd (ns_notifiee s) = NotifyDisconnected CleanStreams \<and>
    (NotifyConnected CONN_TYPE_ALL None RejectInbound \<in> set (ns_notifiee s) \<longleftrightarrow> DisableInbound c) \<and>
    OptConnectionManager (sint (ConnLow c)) (sint (ConnHi c)) 30000000000 \<in> set (ns_options s) \<and>
    ConnLow c \<noteq> 0 \<and> ConnHi c \<noteq> 0"
proof -
  obtain c where c: "New_config opts = (None, c)" and n: "newService L K ap decode libp2p_New NewGossipSub c maxsize files = Return s"
    using assms(1) by (auto simp: New_def map_outcome_Return_iff split: prod.splits option.splits)
  have cc: "complete_config c" using New_config_complete [OF c] .
  then have lim: "ConnLow c \<noteq> 0" "ConnHi c \<noteq> 0" by (simp_all add: complete_config_def)
  note ns = newService_Return [OF n]
  have "pool_wf (ns_asc s)" "pool (ns_asc s) = []" by (simp_all add: ns(1)) (simp add: NewAStreamCatch_def)
  moreover have "topics_ok V (ns_topics s)" using ns(3) assms(2) by (auto simp: topics_ok_def)
  moreover have "hd (ns_notifiee s) = NotifyDisconnected CleanStreams"
    "NotifyConnected CONN_TYPE_ALL None RejectInbound \<in> set (ns_notifiee s) \<longleftrightarrow> DisableInbound c"
    by (simp_all add: ns(2) new_notifiee_def OnDisconnected_def OnConnected_def Let_def)
  moreover have "OptConnectionManager (sint (ConnLow c)) (sint (ConnHi c)) 30000000000 \<in> set (ns_options s)"
    using lim by (simp add: ns(4) lib_options_def conn_limits_def)
  ultimately show ?thesis using c cc lim by blast
qed

definition ex_addr_pkg :: "string addr_pkg" where
  "ex_addr_pkg = \<lparr>ma_StringCast = Some, AddrInfoFromP2pAddr = (\<lambda>m. Inl ''no peer id'')\<rparr>"

text \<open>The service of a fresh home directory, with no option but the directory.\<close>

theorem New_ready_witness:
  "\<exists>s :: (_, nat, tiny, string, nat \<times> string, nat, string) new_service.
   New fifo_lru ex_key_env ex_addr_pkg (\<lambda>t. Inr t) (\<lambda>opts. None) (Inr (pubsub ex_topics)) [Some (Opt_Homedir ''/home/n'')] 31457280 (\<lambda>f. None)
     = Return (Inr s) \<and> topics_ok tiny_view (ns_topics s)"
proof -
  let ?new = "New fifo_lru ex_key_env ex_addr_pkg (\<lambda>t. Inr t) (\<lambda>opts. None) (Inr (pubsub ex_topics)) [Some (Opt_Homedir ''/home/n'')]
    31457280 (\<lambda>f. None)"
  have "New_config [Some (Opt_Homedir ''/home/n'')] = (None, fill_defaults (zero_Config\<lparr>Homedir := ''/home/n''\<rparr>))"
    by (simp add: New_config_eq Config_Apply_def Opt_Homedir_def no_identity_def zero_Config_def)
  moreover have "PrivKey (fill_defaults (zero_Config\<lparr>Homedir := ''/home/n''\<rparr>)) = None"
    "Bootnodes (fill_defaults (zero_Config\<lparr>Homedir := ''/home/n''\<rparr>)) = []"
    by (simp_all add: fill_defaults_def zero_Config_def)
  moreover obtain k f where "loadid ex_key_env h (\<lambda>f. None) = Return (k, f h)" for h
    by (simp add: loadid_def ex_key_env_def Let_def)
  ultimately obtain s :: "(_, nat, tiny, string, nat \<times> string, nat, string) new_service" where s: "?new = Return (Inr s)"
    by (simp add: New_def newService_def new_bootnodes_def)
  have "\<forall>p. Inr (pubsub ex_topics) = (Inr p :: string + tiny) \<longrightarrow> live tiny_view p = {}"
    by (simp add: ex_topics_def tiny_view_def)
  from New_ready [OF s this] s show ?thesis by blast
qed

subsection \<open>Reports\<close>

lemma report_loop_Inr: "report_loop pp f2 st ps rs = Inr r \<Longrightarrow> r = [] \<longleftrightarrow> rs = [] \<and> ps = []"
proof (induction ps arbitrary: rs)
  case (Cons p ps)
  then show ?case by (auto split: sum.splits prod.splits)
qed simp

text \<open>
  \<open>Report\<close> panics exactly when it is called with an empty list of peers that is not nil; every other
  call returns a text.
\<close>

theorem Report_panics_iff:
  "(\<exists>m. Report pp f2 totals st now peerids = Panic m) \<longleftrightarrow> peerids = Some []"
proof (cases peerids)
  case None
  then show ?thesis by (simp add: Report_def Let_def report_detail_def slice_from_def)
next
  case (Some ps)
  then show ?thesis
    by (cases "report_loop pp f2 st ps []") (auto simp: Report_def Let_def dest: report_loop_Inr)
qed

end
