(* ===== verification/Spec2Isabelle.thy ===== *)
theory Spec2Isabelle
  imports KeyMutexSys AsyncRunner Spawn PeersSpec SharedStream Wire InitSpec
begin

text \<open>
  go-alibp2p: a messaging service over go-libp2p.

  The program. A \<open>Service\<close> (\<open>src/impl.go\<close>) owns a libp2p host, a DHT router and a pubsub instance. Other
  programs register handlers for protocols and send messages and requests to peers. For the protocols of
  the reuse kind one stream per peer is kept in a cache (\<open>AStreamCache\<close>, \<open>src/pool.go\<close>); its use is
  serialised by a lock per protocol and peer (\<open>KeyMutex\<close>, \<open>src/funcs.go\<close>) and its other end is served by a
  request loop (\<open>doHandleStream\<close>, \<open>src/pool.go\<close>). Around that the service finds and dials peers, lists
  its connections, reports events, publishes topics and starts from an \<open>Option\<close> list. The development
  translates these parts function by function and proves what each promises to the others.

  How the parts interact. \<open>RequestWithTimeout\<close> and \<open>SendMsgAfterClose\<close> take the key's lock
  (\<open>takelock\<close>, \<open>Lock\<close>), ask the cache for a stream (\<open>get\<close>), write or open one (\<open>sendMsg\<close>), read the answer, and
  file a new stream (\<open>put\<close>) or delete the streams of the key after an error (\<open>del2\<close>); the deferred unlock
  runs last. \<open>put\<close> and \<open>SetStreamHandler\<close> start the request loop of a stream. \<open>del2\<close> also calls \<open>Clean\<close> on the
  lock, inside the section that the lock protects. A disconnection calls \<open>del2\<close> for the peer. The
  bootstrap loop calls \<open>connectFn\<close> and the peer store; \<open>Subscribe\<close> and \<open>Unsubscribe\<close> keep a map over the
  topics of the pubsub library.
\<close>

section \<open>The theories and the code\<close>

text \<open>
  Shared.
  \<^item> \<open>Prelude\<close>: results of functions (\<open>Return\<close> or \<open>Panicked\<close>, for Go's panics), reachable states of a step
    relation, and the interfaces that several components share: \<open>safe_system\<close> (an invariant kept by every
    step), \<open>terminating_system\<close> (a measure that every step lowers), \<open>codec\<close> and \<open>exact_codec\<close>.
  \<^item> \<open>GoStd\<close>, \<open>GoBytes\<close>, \<open>Digest\<close>: the part of Go's standard library that the program computes with:
    \<open>strings\<close>, decimal and hexadecimal texts, \<open>encoding/binary\<close>, \<open>big.Int\<close> bytes, SHA-1 and SHA-256.
  \<^item> \<open>LruCache\<close>: the operations of golang-lru as a record of functions, with the laws relied on.

  Data and configuration.
  \<^item> \<open>Types\<close>: \<open>src/types.go\<close>. \<open>RawData\<close>, \<open>SimplePacketHead\<close>, \<open>PeerDirection\<close>, \<open>blankValidator\<close>.
  \<^item> \<open>Config\<close>: \<open>src/config.go\<close>, \<open>src/options.go\<close>, \<open>src/defaults.go\<close>. The record \<open>Config\<close>, each option as a
    function on it that may fail, \<open>Config.Apply\<close>, the fallback table, \<open>TopicConfig\<close>, the pre-shared key.
  \<^item> \<open>Keys\<close>: \<open>src/funcs.go\<close>. \<open>pubkeyToEcdsa\<close>, \<open>ecdsaToPubkey\<close>, \<open>id2pubkey\<close>, \<open>ECDSAPubEncode\<close>, \<open>ECDSAPubDecode\<close>.

  Locks.
  \<^item> \<open>KeyMutex\<close>: \<open>KeyMutex\<close> of \<open>src/types.go\<close> and \<open>src/funcs.go\<close>. A channel is an entry of a store, named by
    its number, so that a lock name and a goroutine can refer to one channel while \<open>Clean\<close> removes the
    name. A channel of the code has room for one token: holding the lock is having put it there.
  \<^item> \<open>KeyLock\<close>: the interface \<open>key_lock\<close> (an abstract table of held lock names) and its interpretation on the
    operations; the sequential use of the locks by messaging rests on it.
  \<^item> \<open>KeyMutexSys\<close>: goroutines in \<open>Lock\<close> and \<open>Unlock\<close> interleaved at the granularity of the channel
    operations, \<open>lock_step\<close>; exclusion, progress, and what \<open>Clean\<close> does to them.

  Streams.
  \<^item> \<open>StreamCache\<close>: \<open>AStreamCache\<close> of \<open>src/pool.go\<close>, every operation. \<open>StreamPool\<close>: its invariant
    \<open>pool_wf\<close>, the interface \<open>stream_pool\<close> (a finite family of streams per key and peer) and its interpretation.
  \<^item> \<open>HandleStream\<close>: \<open>reuse_conn\<close>, \<open>doHandleStream\<close> and \<open>callHandler\<close> of \<open>src/pool.go\<close>, with the reference server
    \<open>serve\<close> that the loop refines.
  \<^item> \<open>Service\<close>: the fields of \<open>Service\<close> that concern streams, the five registration calls and \<open>callHandler\<close> of
    \<open>src/impl.go\<close>.
  \<^item> \<open>Messaging\<close>: \<open>sendMsg\<close>, \<open>SendMsg\<close>, \<open>SendMsgAfterClose\<close>, \<open>Request\<close>, \<open>RequestWithTimeout\<close> of \<open>src/impl.go\<close>;
    \<open>MessagingSpec\<close> and \<open>MessagingProps\<close>: their contract, on every branch.
  \<^item> \<open>EndToEnd\<close>: the client's call and the turn of the server's loop it meets, one exchange after the other. The
    relation \<open>exchange\<close> ties the two by their frames: the turn gets the frame that the client's run gave to
    \<open>ToWriter\<close>, and the client reads, on the stream it wrote to, the frame that the turn sent.
  \<^item> \<open>SharedStream\<close>: any number of concurrent calls of \<open>RequestWithTimeout\<close> on the stream of one key,
    \<open>shared_step\<close>, over the steps of the locks and the turns of the request loop. Its write, read and the two ways
    to fail are those of the code by \<open>request_delivered\<close>, \<open>request_writes\<close> and \<open>failed_call_effect\<close>: a call that finds no
    stream filed and cannot open or first write one leaves pool and locks alone, every other failure cleans the lock.
  \<^item> \<open>Wire\<close>: \<open>FromBytes\<close>, \<open>FromReader\<close>, \<open>ToBytes\<close>, \<open>ToWriter\<close>, their \<open>Must\<close> variants, \<open>GetBuf\<close> and \<open>PutBuf\<close> of
    \<open>src/funcs.go\<close>, and the request loop on a stream of bytes.

  Goroutines.
  \<^item> \<open>AsyncRunner\<close>: the worker pool of \<open>src/funcs.go\<close>, \<open>run_step\<close>, at the granularity of its atomic
    operations. \<open>Spawn\<close>: \<open>Spawn\<close> of \<open>src/funcs.go\<close>, \<open>spawn_step\<close>.
  \<^item> \<open>Dial\<close>: \<open>connectFn\<close>, \<open>convertPeers\<close> of \<open>src/funcs.go\<close>, \<open>dial_step\<close>.

  The rest of the service.
  \<^item> \<open>Peers\<close>, \<open>PeersSpec\<close>: \<open>Conns\<close>, \<open>GetSession\<close>, \<open>Peers\<close>, \<open>PeersWithDirection\<close>, \<open>Table\<close>, \<open>Addrs\<close>, \<open>Findpeer\<close>, metadata
    and protection of peers, \<open>ClosePeer\<close>, \<open>PutPeerMeta\<close>, the DHT's values.
  \<^item> \<open>Bootstrap\<close>, \<open>BootstrapSpec\<close>: \<open>SetBootnode\<close>, \<open>peersWithoutBootnodes\<close>, \<open>randPeers\<close> over slices that share
    an array, \<open>BootstrapOnce\<close>, a round and the period of the bootstrap loop, \<open>Connect\<close>, \<open>PreConnect\<close>.
  \<^item> \<open>Pubsub\<close>, \<open>PubsubSpec\<close>: \<open>Publish\<close>, \<open>Subscribe\<close>, \<open>Unsubscribe\<close>.
  \<^item> \<open>Events\<close>, \<open>EventsSpec\<close>: \<open>OnConnected\<close>, \<open>OnConnectedEvent\<close>, \<open>OnDisconnected\<close>, \<open>Start\<close>, and the counter
    goroutine of \<open>src/counter.go\<close>.
  \<^item> \<open>Init\<close>, \<open>InitSpec\<close>: \<open>New\<close> and \<open>newService\<close>, \<open>loadid\<close>, advertising and its lifetimes, \<open>FindProviders\<close>,
    \<open>Report\<close>, \<open>RoutingTable\<close>.
\<close>

section \<open>How the model represents the code\<close>

text \<open>
  \<^item> Errors are values as in the code: \<open>err\<close> is an optional text, \<open>None\<close> for nil. A panic is \<open>Panicked\<close> and ends
    what follows it. A nil pointer that the code tests is \<open>None\<close>.
  \<^item> Strings are lists of characters of eight bits, as Go's strings are of bytes. Integers that the code
    keeps at a width have it (\<open>word\<close>, or arithmetic on \<open>int\<close> where the code's values are bounded and the
    bound is part of the statement); \<open>boot_delay\<close> keeps the wrap-around of \<open>time.Duration\<close>.
  \<^item> A peer id is represented by its base58 text, which determines it.
  \<^item> What the network, the clock and the random source answer during a call is an argument (\<open>net\<close>, the
    turns of a stream, \<open>h_Rand\<close>); every theorem quantifies over it. The calls that the code makes on the
    outside, in order, are a list (\<open>emit\<close>, the \<open>trace\<close> of a service).
  \<^item> The order of \<open>range\<close> over a map is not specified by Go: it is an argument of the definition, a list of
    which only the set of elements is used by the theorems.
  \<^item> Goroutines that share state are step relations over an explicit state. A step is one atomic or channel
    operation; a timer may fire in any step. Theorems speak of every reachable state, that is of every schedule.
  \<^item> Libraries outside the repository (libp2p, the DHT, pubsub, amino, golang-lru, multiaddr, pnet, btcec) are
    records of functions, arguments of the definitions. What is relied on is a named hypothesis: \<open>lru_laws\<close>
    (a cache answers what was put or nothing), \<open>pubsub_laws\<close> (joining, closing, subscribing and the
    validators of a topic), \<open>amino_laws\<close> (a length-prefixed encoding with a limit for its reader), the round
    trips of keys and addresses. Each theorem with such a hypothesis has an
    instance on concrete functions.
  \<^item> No definition needs fuel: the loops are recursions on the list they range over, on the remaining looks
    (\<open>event_poll\<close>, twenty) or on the turns of a stream. Loops that have no end by themselves (the bootstrap
    loop, the worker, the request loop) are given round by round, or as step relations.
\<close>

section \<open>What is proved\<close>

text \<open>
  \<^item> Messaging. Requests are answered by the peer's handler in order, and the locks are as before (\<open>EndToEnd\<close>);
    no branch leaks a lock or panics; an error of a request to a peer id drops the key's streams, one of a request
    to a multiaddress does not; which streams are closed.
  \<^item> Concurrent calls on one stream (\<open>SharedStream\<close>): as long as no call fails on the filed stream, every caller gets
    the answer to its own request and none is stuck; after such a failure an answer can go to another caller.
  \<^item> On a stream of bytes (\<open>Wire\<close>) the loop answers the requests up to the first above the size limit, refuses that
    one and closes the stream.
  \<^item> The request loop answers each request once, with its id, and refines \<open>serve\<close>; when it ends and panics.
  \<^item> The stream cache keeps its invariant, loses no stream and closes each stream it drops once; get after put,
    and the session that is filed first wins.
  \<^item> Locks: exclusion, a holder can always leave, and refinement of the abstract table by \<open>Lock\<close> and \<open>Unlock\<close> with
    their errors; \<open>Clean\<close> breaks exclusion.
  \<^item> \<open>AsyncRunner\<close>: the number of workers and its bound, no task lost or served twice; with a minimum of zero a
    task can be lost and a channel closed twice. \<open>WaitClose\<close> returns on every run of a pool with a live
    worker, no caller of \<open>Apply\<close> on its way and an open \<open>closeCh\<close>, and never on a pool that was not used.
    \<open>connectFn\<close> and \<open>Spawn\<close> end on every schedule, within a bound.
  \<^item> Peers, bootstrap, events, topics, start-up: the results of each operation against a declarative
    description, its errors, and round trips (keys, subscription, the stored identity).
  \<^item> Where the code does not do what it means to, the theorem states what it does: two holders of one lock
    after \<open>Clean\<close>, one lock for two keys with the same concatenation, streams of protocols with an at sign that
    outlive their peer, streams opened for a multiaddress that are never closed or stay in the pool after
    an error, clients of the DHT that are dialled although a comment excludes them, the letter that
    \<open>PeersWithDirection\<close> cuts off, topics stranded by \<open>Unsubscribe\<close>, the shared variable of \<open>Spawn\<close>, and
    the worker pool with a minimum of zero.
\<close>

section \<open>Not modelled\<close>

text \<open>
  \<^item> The encoding of frames, amino's: a parameter of \<open>Wire\<close>; everywhere else frames are values.
  \<^item> \<open>src/interface.go\<close> declares interfaces and callback types. The getters of \<open>Service\<close> return a field.
  \<^item> Logging, which has no effect on results; the choice of its level is modelled (\<open>log_level_of\<close>).
  \<^item> The inside of libp2p: the host, the DHT, NAT, connection manager, peer store and gossip.
  \<^item> The interleaving of messaging at the granularity of every statement: \<open>SharedStream\<close> interleaves the
    lock, the write, the read and the two failures of a call; the theorems of \<open>MessagingProps\<close> are about one call.
  \<^item> Tests, documentation and build files.
\<close>

end
